theory Spec2Isabelle
  imports Main "HOL-Library.AList" "HOL-Library.Sublist"
begin

section \<open>The event-stream relay of apps/api/stream.py\<close>

text \<open>
  The relay reads Redis streams and forwards their entries to browsers as server-sent
  events. The three async generators of \<open>StreamManager\<close> are modelled as step functions
  on an explicit world: the attributes of the manager (\<open>redis_client\<close>,
  \<open>temporal_client\<close>, \<open>active_streams\<close>) together with the streams held by the Redis
  server. Whatever the generators await (the reply of \<open>xread\<close>, the reply of the Temporal
  query, the clock) is an input of the step.
\<close>

subsection \<open>Events on the wire\<close>

text \<open>
  Field values are strings: the client is created with \<open>decode_responses=True\<close>.
  A dict is an association list in insertion order, updated with \<open>AList.update\<close>
  (an existing key keeps its place, a new key goes to the end).
\<close>

type_synonym fields = "(string \<times> string) list"

text \<open>An entry of a Redis stream: its id and its fields. Id \<open>0\<close> is the sentinel \<open>"0"\<close>.\<close>

type_synonym entry = "nat \<times> fields"

text \<open>
  \<open>_format_sse_message\<close> renders \<open>event: <type>\ndata: <json>\n\n\<close>; the model keeps the
  two components the text is made of.
\<close>

datatype sse = SSE (event: string) (payload: fields)

definition format_sse_message :: "string \<Rightarrow> fields \<Rightarrow> sse" where
  "format_sse_message event_type d = SSE event_type d"

text \<open>
  What a generator does with one item: \<open>Entry k i m\<close> is the entry with id \<open>i\<close> taken
  from channel \<open>k\<close> (loop variables \<open>stream_name\<close>, \<open>message_id\<close>), with \<open>m\<close> the message
  yielded for it, if any; \<open>Synth m\<close> is a message the generator makes up itself
  (\<open>connected\<close>, \<open>error\<close>, \<open>temporal_status\<close>, \<open>disconnected\<close>). \<open>wire\<close> is what is yielded.
\<close>

datatype emission = Entry string nat "sse option" | Synth sse

fun wire :: "emission list \<Rightarrow> sse list" where
  "wire [] = []"
| "wire (Entry k i None # es) = wire es"
| "wire (Entry k i (Some m) # es) = m # wire es"
| "wire (Synth m # es) = m # wire es"

text \<open>The ids of the entries taken from channel \<open>k\<close>, in the order they were taken.\<close>

fun ids_on :: "string \<Rightarrow> emission list \<Rightarrow> nat list" where
  "ids_on k [] = []"
| "ids_on k (Entry k' i m # es) = (if k' = k then i # ids_on k es else ids_on k es)"
| "ids_on k (Synth m # es) = ids_on k es"

subsection \<open>The world: the manager and the Redis server\<close>

record world =
  redis_client :: bool
  temporal_client :: bool
  active_streams :: "(string \<times> bool) list"
  streams :: "string \<Rightarrow> entry list"
  last_generated :: nat

definition STREAM_KEYS :: "(string \<times> string) list" where
  "STREAM_KEYS =
     [(''workflow_progress'', ''pip-ai:workflow:progress''),
      (''file_analysis'', ''pip-ai:analysis:progress''),
      (''ai_processing'', ''pip-ai:ai:progress''),
      (''notifications'', ''pip-ai:notifications'')]"

definition stream_key_of :: "string \<Rightarrow> string" where
  "stream_key_of name = (case map_of STREAM_KEYS name of Some k \<Rightarrow> k | None \<Rightarrow> [])"

text \<open>
  The Redis server, as the code relies on it. \<open>xadd(key, fields, maxlen=n)\<close> of redis-py
  sends \<open>XADD key MAXLEN ~ n * ...\<close>: the entry gets an id above every id generated so
  far, and the trimming is approximate, the server removes whole blocks of old entries
  only and may keep more than \<open>n\<close>. How many more is the server's choice, the argument
  \<open>extra\<close>: the last \<open>n + extra\<close> entries of the stream are kept.
  \<open>XREAD COUNT c STREAMS key after\<close> returns the first \<open>c\<close> entries with an id above
  \<open>after\<close>; a stream with nothing new is left out of the reply.
\<close>

definition xadd :: "string \<Rightarrow> fields \<Rightarrow> nat \<Rightarrow> nat \<Rightarrow> world \<Rightarrow> world" where
  "xadd key fs maxlen extra w =
     (let i = Suc (last_generated w); es = streams w key @ [(i, fs)]
      in w\<lparr>streams := (streams w)(key := drop (length es - (maxlen + extra)) es),
            last_generated := i\<rparr>)"

definition xread_one :: "world \<Rightarrow> nat \<Rightarrow> string \<Rightarrow> nat \<Rightarrow> entry list" where
  "xread_one w cnt key after = take cnt (filter (\<lambda>e. after < fst e) (streams w key))"

definition xread :: "world \<Rightarrow> (string \<times> nat) list \<Rightarrow> nat \<Rightarrow> (string \<times> entry list) list" where
  "xread w cursors cnt =
     filter (\<lambda>(k, es). es \<noteq> []) (map (\<lambda>(k, c). (k, xread_one w cnt k c)) cursors)"

text \<open>Ids within a stream increase, and none is above the last one generated.\<close>

definition store_ok :: "world \<Rightarrow> bool" where
  "store_ok w \<longleftrightarrow>
     (\<forall>k. sorted_wrt (<) (map fst (streams w k)) \<and>
          (\<forall>e \<in> set (streams w k). fst e \<le> last_generated w))"

text \<open>How an awaited Redis call ends: with a reply, or by raising.\<close>

datatype redis_outcome = Replied | ConnectionError | OtherException string

subsection \<open>Publishing\<close>

text \<open>
  \<open>{**base, **data}\<close>: the keys of \<open>data\<close> override those of \<open>base\<close>. The publishers
  take the clock, how the awaited \<open>xadd\<close> ends, and what the server keeps beyond
  \<open>maxlen\<close>.
\<close>

definition dict_merge :: "fields \<Rightarrow> fields \<Rightarrow> fields" where
  "dict_merge base d = fold (\<lambda>(k, v). AList.update k v) d base"

definition publish_workflow_progress ::
  "string \<Rightarrow> fields \<Rightarrow> string \<Rightarrow> redis_outcome \<Rightarrow> nat \<Rightarrow> world \<Rightarrow> world" where
  "publish_workflow_progress workflow_id d now oc extra w =
     (if \<not> redis_client w then w
      else
        let stream_data =
              dict_merge [(''workflow_id'', workflow_id), (''timestamp'', now),
                          (''event_type'', ''workflow_progress'')] d
        in (case oc of
              Replied \<Rightarrow> xadd (stream_key_of ''workflow_progress'') stream_data 1000 extra w
            | ConnectionError \<Rightarrow> w
            | OtherException e \<Rightarrow> w))"

definition publish_analysis_progress ::
  "string \<Rightarrow> fields \<Rightarrow> string \<Rightarrow> redis_outcome \<Rightarrow> nat \<Rightarrow> world \<Rightarrow> world" where
  "publish_analysis_progress file_id d now oc extra w =
     (if \<not> redis_client w then w
      else
        let stream_data =
              dict_merge [(''file_id'', file_id), (''timestamp'', now),
                          (''event_type'', ''analysis_progress'')] d
        in (case oc of
              Replied \<Rightarrow> xadd (stream_key_of ''file_analysis'') stream_data 1000 extra w
            | ConnectionError \<Rightarrow> w
            | OtherException e \<Rightarrow> w))"

text \<open>The two POST endpoints: the new world and the response body.\<close>

definition publish_workflow_event ::
  "string \<Rightarrow> fields \<Rightarrow> string \<Rightarrow> redis_outcome \<Rightarrow> nat \<Rightarrow> world
     \<Rightarrow> world \<times> fields" where
  "publish_workflow_event workflow_id d now oc extra w =
     (publish_workflow_progress workflow_id d now oc extra w,
      [(''status'', ''published''), (''workflow_id'', workflow_id)])"

definition publish_analysis_event ::
  "string \<Rightarrow> fields \<Rightarrow> string \<Rightarrow> redis_outcome \<Rightarrow> nat \<Rightarrow> world
     \<Rightarrow> world \<times> fields" where
  "publish_analysis_event file_id d now oc extra w =
     (publish_analysis_progress file_id d now oc extra w,
      [(''status'', ''published''), (''file_id'', file_id)])"

subsection \<open>The registry\<close>

definition stop_stream :: "string \<Rightarrow> world \<Rightarrow> world" where
  "stop_stream stream_id w =
     w\<lparr>active_streams := AList.update stream_id False (active_streams w)\<rparr>"

text \<open>\<open>self.active_streams.get(stream_id, False)\<close>, the test of the three loops.\<close>

definition alive :: "world \<Rightarrow> string \<Rightarrow> bool" where
  "alive w stream_id = (case map_of (active_streams w) stream_id of Some b \<Rightarrow> b | None \<Rightarrow> False)"

record health =
  health_status :: string
  redis_service :: string
  temporal_service :: string
  active_streams_count :: nat
  health_timestamp :: string

definition stream_health :: "string \<Rightarrow> world \<Rightarrow> health" where
  "stream_health now w =
     (let rs = (if redis_client w then ''healthy'' else ''disconnected'');
          ts = (if temporal_client w then ''healthy'' else ''disconnected'')
      in \<lparr>health_status =
            (if rs = ''healthy'' \<and> ts = ''healthy'' then ''healthy'' else ''degraded''),
          redis_service = rs,
          temporal_service = ts,
          active_streams_count = length (active_streams w),
          health_timestamp = now\<rparr>)"

subsection \<open>What a generator awaits\<close>

text \<open>
  \<open>handle.query("getAnalysisStatus")\<close> returns a status or raises; the loop catches every
  \<open>Exception\<close> of the query, whatever it is.
\<close>

datatype query_error = NotFound | QueryUnsupported | OtherQueryError string

datatype query_outcome = Status string | QueryRaised query_error

text \<open>
  The inputs of one pass through a \<open>while\<close> loop: how \<open>xread\<close> ends, how the Temporal query
  ends (read only by the workflow stream, and only when it queries), and the clock.
\<close>

record cycle_env =
  xread_reply :: redis_outcome
  query_reply :: query_outcome
  clock :: string

datatype phase = Streaming | Closed

text \<open>The locals of \<open>stream_workflow_events\<close> and of \<open>stream_file_analysis\<close>.\<close>

record single_gen =
  gen_id :: string
  last_id :: nat
  phase :: phase

text \<open>The locals of \<open>stream_global_events\<close>.\<close>

record global_gen =
  gen_user :: string
  last_ids :: "(string \<times> nat) list"
  gphase :: phase

definition event_type_of :: "fields \<Rightarrow> string \<Rightarrow> string" where
  "event_type_of event_data dflt =
     (case map_of event_data ''event_type'' of Some t \<Rightarrow> t | None \<Rightarrow> dflt)"

subsection \<open>The loops over a reply\<close>

text \<open>
  \<open>for message_id, fields in messages\<close> and \<open>for stream_name, messages in streams\<close> of the
  workflow and the file stream; \<open>dflt\<close> is the default event type.
\<close>

fun relay_messages :: "string \<Rightarrow> string \<Rightarrow> entry list \<Rightarrow> nat \<Rightarrow> nat \<times> emission list" where
  "relay_messages dflt stream_name [] lid = (lid, [])"
| "relay_messages dflt stream_name ((message_id, fs) # ms) lid =
     (let (lid', out) = relay_messages dflt stream_name ms message_id
      in (lid',
          Entry stream_name message_id
            (Some (format_sse_message (event_type_of fs dflt) fs)) # out))"

fun relay_streams ::
  "string \<Rightarrow> (string \<times> entry list) list \<Rightarrow> nat \<Rightarrow> nat \<times> emission list" where
  "relay_streams dflt [] lid = (lid, [])"
| "relay_streams dflt ((stream_name, messages) # ss) lid =
     (let (lid1, out1) = relay_messages dflt stream_name messages lid;
          (lid2, out2) = relay_streams dflt ss lid1
      in (lid2, out1 @ out2))"

definition is_user_event :: "fields \<Rightarrow> string \<Rightarrow> bool" where
  "is_user_event event_data user_id \<longleftrightarrow>
     map_of event_data ''user_id'' = Some user_id \<or>
     prefix (''user:'' @ user_id @ '':'')
       (case map_of event_data ''workflow_id'' of Some v \<Rightarrow> v | None \<Rightarrow> []) \<or>
     prefix (''user:'' @ user_id @ '':'')
       (case map_of event_data ''file_id'' of Some v \<Rightarrow> v | None \<Rightarrow> [])"

text \<open>The same two loops in \<open>stream_global_events\<close>, with the cursor dict and the filter.\<close>

fun global_messages ::
  "string \<Rightarrow> string \<Rightarrow> entry list \<Rightarrow> (string \<times> nat) list
     \<Rightarrow> (string \<times> nat) list \<times> emission list" where
  "global_messages user_id stream_name [] lids = (lids, [])"
| "global_messages user_id stream_name ((message_id, fs) # ms) lids =
     (let (lids', out) =
            global_messages user_id stream_name ms (AList.update stream_name message_id lids)
      in (lids',
          Entry stream_name message_id
            (if is_user_event fs user_id
             then Some (format_sse_message (event_type_of fs ''notification'') fs)
             else None) # out))"

fun global_streams ::
  "string \<Rightarrow> (string \<times> entry list) list \<Rightarrow> (string \<times> nat) list
     \<Rightarrow> (string \<times> nat) list \<times> emission list" where
  "global_streams user_id [] lids = (lids, [])"
| "global_streams user_id ((stream_name, messages) # ss) lids =
     (let (lids1, out1) = global_messages user_id stream_name messages lids;
          (lids2, out2) = global_streams user_id ss lids1
      in (lids2, out1 @ out2))"

subsection \<open>The three generators\<close>

text \<open>
  Each generator is two functions. \<open>_start\<close> runs from the call to the first \<open>yield\<close>.
  \<open>_cycle\<close> runs from the test of the \<open>while\<close> loop to the next test, or through the
  \<open>finally\<close> block to the end when the loop is left. A cycle reads the registry once, at
  the test, and Redis once, at \<open>xread\<close>, which follows the test at once; what the other
  tasks do while the generator is suspended later in the cycle shows at its next test or
  in its next reply. So a cycle is taken in one world, and the other tasks act between
  cycles. A generator that has ended yields nothing more.
\<close>

definition finally_block ::
  "string \<Rightarrow> string \<Rightarrow> string \<Rightarrow> string \<Rightarrow> world \<Rightarrow> world \<times> emission list" where
  "finally_block stream_id id_field id_value now w =
     (w\<lparr>active_streams := AList.delete stream_id (active_streams w)\<rparr>,
      [Synth (format_sse_message ''disconnected''
                [(id_field, id_value), (''timestamp'', now)])])"

definition stream_workflow_events_start ::
  "string \<Rightarrow> string \<Rightarrow> world \<Rightarrow> (world \<times> single_gen) \<times> emission list" where
  "stream_workflow_events_start workflow_id now w =
     (if \<not> redis_client w then
        ((w, \<lparr>gen_id = workflow_id, last_id = 0, phase = Closed\<rparr>),
         [Synth (format_sse_message ''error'' [(''message'', ''Redis not connected'')])])
      else
        ((w\<lparr>active_streams := AList.update workflow_id True (active_streams w)\<rparr>,
          \<lparr>gen_id = workflow_id, last_id = 0, phase = Streaming\<rparr>),
         [Synth (format_sse_message ''connected''
                   [(''workflow_id'', workflow_id), (''timestamp'', now)])]))"

definition stream_workflow_events_cycle ::
  "cycle_env \<Rightarrow> world \<times> single_gen \<Rightarrow> (world \<times> single_gen) \<times> emission list" where
  "stream_workflow_events_cycle env s =
     (case s of (w, g) \<Rightarrow>
      (case phase g of
         Closed \<Rightarrow> ((w, g), [])
       | Streaming \<Rightarrow>
           if \<not> alive w (gen_id g) then
             (let (w', bye) = finally_block (gen_id g) ''workflow_id'' (gen_id g) (clock env) w
              in ((w', g\<lparr>phase := Closed\<rparr>), bye))
           else
             (case xread_reply env of
                Replied \<Rightarrow>
                  (let replied = xread w [(gen_id g @ '':progress'', last_id g)] 10;
                       (lid, out) =
                         (if replied \<noteq> [] then relay_streams ''progress'' replied (last_id g)
                          else (last_id g, []));
                       temporal =
                         (if temporal_client w then
                            (case query_reply env of
                               Status st \<Rightarrow>
                                 [Synth (format_sse_message ''temporal_status''
                                    [(''workflow_id'', gen_id g), (''status'', st),
                                     (''timestamp'', clock env)])]
                             | QueryRaised e \<Rightarrow> [])
                          else [])
                   in ((w, g\<lparr>last_id := lid\<rparr>), out @ temporal))
              | ConnectionError \<Rightarrow>
                  (let (w', bye) =
                         finally_block (gen_id g) ''workflow_id'' (gen_id g) (clock env) w
                   in ((w', g\<lparr>phase := Closed\<rparr>),
                       Synth (format_sse_message ''error''
                         [(''message'', ''Redis connection lost''),
                          (''timestamp'', clock env)]) # bye))
              | OtherException e \<Rightarrow>
                  ((w, g),
                   [Synth (format_sse_message ''error''
                      [(''message'', e), (''timestamp'', clock env)])]))))"

definition stream_file_analysis_start ::
  "string \<Rightarrow> string \<Rightarrow> world \<Rightarrow> (world \<times> single_gen) \<times> emission list" where
  "stream_file_analysis_start file_id now w =
     (if \<not> redis_client w then
        ((w, \<lparr>gen_id = file_id, last_id = 0, phase = Closed\<rparr>),
         [Synth (format_sse_message ''error'' [(''message'', ''Redis not connected'')])])
      else
        ((w\<lparr>active_streams := AList.update file_id True (active_streams w)\<rparr>,
          \<lparr>gen_id = file_id, last_id = 0, phase = Streaming\<rparr>),
         [Synth (format_sse_message ''connected''
                   [(''file_id'', file_id), (''timestamp'', now)])]))"

definition stream_file_analysis_cycle ::
  "cycle_env \<Rightarrow> world \<times> single_gen \<Rightarrow> (world \<times> single_gen) \<times> emission list" where
  "stream_file_analysis_cycle env s =
     (case s of (w, g) \<Rightarrow>
      (case phase g of
         Closed \<Rightarrow> ((w, g), [])
       | Streaming \<Rightarrow>
           if \<not> alive w (gen_id g) then
             (let (w', bye) = finally_block (gen_id g) ''file_id'' (gen_id g) (clock env) w
              in ((w', g\<lparr>phase := Closed\<rparr>), bye))
           else
             (case xread_reply env of
                Replied \<Rightarrow>
                  (let replied = xread w [(gen_id g @ '':analysis'', last_id g)] 10;
                       (lid, out) =
                         (if replied \<noteq> [] then relay_streams ''analysis'' replied (last_id g)
                          else (last_id g, []))
                   in ((w, g\<lparr>last_id := lid\<rparr>), out))
              | ConnectionError \<Rightarrow>
                  (let (w', bye) = finally_block (gen_id g) ''file_id'' (gen_id g) (clock env) w
                   in ((w', g\<lparr>phase := Closed\<rparr>),
                       Synth (format_sse_message ''error''
                         [(''message'', ''Redis connection lost'')]) # bye))
              | OtherException e \<Rightarrow>
                  ((w, g), [Synth (format_sse_message ''error'' [(''message'', e)])]))))"

definition global_stream_id :: "string \<Rightarrow> string" where
  "global_stream_id user_id = ''user:'' @ user_id @ '':events''"

definition stream_global_events_start ::
  "string \<Rightarrow> string \<Rightarrow> world \<Rightarrow> (world \<times> global_gen) \<times> emission list" where
  "stream_global_events_start user_id now w =
     (if \<not> redis_client w then
        ((w, \<lparr>gen_user = user_id, last_ids = map (\<lambda>key. (key, 0)) (map snd STREAM_KEYS),
               gphase = Closed\<rparr>),
         [Synth (format_sse_message ''error'' [(''message'', ''Redis not connected'')])])
      else
        ((w\<lparr>active_streams := AList.update (global_stream_id user_id) True (active_streams w)\<rparr>,
          \<lparr>gen_user = user_id, last_ids = map (\<lambda>key. (key, 0)) (map snd STREAM_KEYS),
            gphase = Streaming\<rparr>),
         [Synth (format_sse_message ''connected''
                   [(''user_id'', user_id), (''timestamp'', now)])]))"

definition stream_global_events_cycle ::
  "cycle_env \<Rightarrow> world \<times> global_gen \<Rightarrow> (world \<times> global_gen) \<times> emission list" where
  "stream_global_events_cycle env s =
     (case s of (w, g) \<Rightarrow>
      (case gphase g of
         Closed \<Rightarrow> ((w, g), [])
       | Streaming \<Rightarrow>
           if \<not> alive w (global_stream_id (gen_user g)) then
             (let (w', bye) = finally_block (global_stream_id (gen_user g))
                                ''user_id'' (gen_user g) (clock env) w
              in ((w', g\<lparr>gphase := Closed\<rparr>), bye))
           else
             (case xread_reply env of
                Replied \<Rightarrow>
                  (let replied = xread w (last_ids g) 5;
                       (lids, out) =
                         (if replied \<noteq> [] then global_streams (gen_user g) replied (last_ids g)
                          else (last_ids g, []))
                   in ((w, g\<lparr>last_ids := lids\<rparr>), out))
              | ConnectionError \<Rightarrow>
                  (let (w', bye) = finally_block (global_stream_id (gen_user g))
                                     ''user_id'' (gen_user g) (clock env) w
                   in ((w', g\<lparr>gphase := Closed\<rparr>),
                       Synth (format_sse_message ''error''
                         [(''message'', ''Redis connection lost'')]) # bye))
              | OtherException e \<Rightarrow>
                  ((w, g), [Synth (format_sse_message ''error'' [(''message'', e)])]))))"

subsection \<open>A subscription among the other tasks\<close>

text \<open>
  Between two cycles of a generator the other tasks of the process may run. What they
  can do to the shared world is what the code does to it: append to a stream, stop a
  stream, register a stream (another generator starting) and remove one (another
  generator's \<open>finally\<close> block).
\<close>

datatype other_op =
  XAdd string fields nat nat | StopStream string | Register string | Unregister string

fun apply_other :: "other_op \<Rightarrow> world \<Rightarrow> world" where
  "apply_other (XAdd key fs maxlen extra) w = xadd key fs maxlen extra w"
| "apply_other (StopStream stream_id) w = stop_stream stream_id w"
| "apply_other (Register stream_id) w =
     w\<lparr>active_streams := AList.update stream_id True (active_streams w)\<rparr>"
| "apply_other (Unregister stream_id) w =
     w\<lparr>active_streams := AList.delete stream_id (active_streams w)\<rparr>"

datatype act = Cycle cycle_env | Other other_op

fun run ::
  "(cycle_env \<Rightarrow> world \<times> 'g \<Rightarrow> (world \<times> 'g) \<times> emission list) \<Rightarrow> act list
     \<Rightarrow> world \<times> 'g \<Rightarrow> (world \<times> 'g) \<times> emission list" where
  "run step [] s = (s, [])"
| "run step (Cycle env # as) s =
     (let (s1, out1) = step env s; (s2, out2) = run step as s1 in (s2, out1 @ out2))"
| "run step (Other op # as) s = run step as (apply_other op (fst s), snd s)"

subsection \<open>Closed forms and sample worlds\<close>

text \<open>What the relay loops yield for one entry, and where they leave the cursor.\<close>

definition relayed :: "string \<Rightarrow> string \<Rightarrow> entry \<Rightarrow> emission" where
  "relayed dflt k e =
     Entry k (fst e) (Some (format_sse_message (event_type_of (snd e) dflt) (snd e)))"

definition screened :: "string \<Rightarrow> string \<Rightarrow> entry \<Rightarrow> emission" where
  "screened user_id k e =
     Entry k (fst e)
       (if is_user_event (snd e) user_id
        then Some (format_sse_message (event_type_of (snd e) ''notification'') (snd e))
        else None)"

definition advance :: "nat \<Rightarrow> entry list \<Rightarrow> nat" where
  "advance c es = (if es = [] then c else fst (last es))"

text \<open>The cursor of a channel in the dict \<open>last_ids\<close>.\<close>

definition cursor_of :: "(string \<times> nat) list \<Rightarrow> string \<Rightarrow> nat" where
  "cursor_of lids k = (case map_of lids k of Some c \<Rightarrow> c | None \<Rightarrow> 0)"

text \<open>
  A cursor moving from \<open>c\<close> to \<open>c'\<close> while the ids \<open>is\<close> are taken: the cursor does not go
  back, the ids increase, and each lies above the old cursor and not above the new one.
\<close>

definition disciplined :: "nat \<Rightarrow> nat \<Rightarrow> nat list \<Rightarrow> bool" where
  "disciplined c c' is \<longleftrightarrow>
     c \<le> c' \<and> sorted_wrt (<) is \<and> (\<forall>i \<in> set is. c < i \<and> i \<le> c')"

definition idle_world :: world where
  "idle_world = \<lparr>redis_client = True, temporal_client = True, active_streams = [],
                  streams = (\<lambda>key. []), last_generated = 0\<rparr>"

definition offline_world :: world where
  "offline_world = \<lparr>redis_client = False, temporal_client = False, active_streams = [],
                     streams = (\<lambda>key. []), last_generated = 0\<rparr>"

definition quiet_cycle :: cycle_env where
  "quiet_cycle = \<lparr>xread_reply = Replied, query_reply = QueryRaised NotFound, clock = ''t1''\<rparr>"

definition lost_cycle :: cycle_env where
  "lost_cycle = \<lparr>xread_reply = ConnectionError, query_reply = QueryRaised NotFound,
                  clock = ''t2''\<rparr>"

text \<open>
  The property of cursors, for a run in two parts: the cursor \<open>cur\<close> of the generator never
  goes back; the ids taken from channel \<open>k\<close> over the whole run increase strictly; and
  every id taken in the second part lies above the cursor recorded after the first.
\<close>

definition cursor_respected ::
  "(cycle_env \<Rightarrow> world \<times> 'g \<Rightarrow> (world \<times> 'g) \<times> emission list) \<Rightarrow> ('g \<Rightarrow> nat) \<Rightarrow> string
     \<Rightarrow> act list \<Rightarrow> act list \<Rightarrow> world \<times> 'g \<Rightarrow> bool" where
  "cursor_respected step cur k acts1 acts2 s \<longleftrightarrow>
     (let r1 = run step acts1 s; r2 = run step acts2 (fst r1)
      in cur (snd s) \<le> cur (snd (fst r1)) \<and> cur (snd (fst r1)) \<le> cur (snd (fst r2)) \<and>
         sorted_wrt (<) (ids_on k (snd r1 @ snd r2)) \<and>
         (\<forall>i \<in> set (ids_on k (snd r2)). cur (snd (fst r1)) < i))"

text \<open>
  The endpoint wrapper \<open>event_generator\<close> around a generator. Message by message, it
  yields the message to the transport and then awaits \<open>request.is_disconnected()\<close>; when
  the answer is \<open>True\<close> it calls \<open>stop_stream\<close> and breaks. \<open>messages\<close> lists what the
  generator yields as long as it is consumed, \<open>is_disconnected n\<close> is the answer after
  message \<open>n\<close>. The result is what reached the transport, and whether \<open>stop_stream\<close> was
  called.
\<close>

fun event_generator :: "(nat \<Rightarrow> bool) \<Rightarrow> nat \<Rightarrow> sse list \<Rightarrow> sse list \<times> bool" where
  "event_generator is_disconnected n [] = ([], False)"
| "event_generator is_disconnected n (message # rest) =
     (if is_disconnected n then ([message], True)
      else (let (sent, stopped) = event_generator is_disconnected (Suc n) rest
            in (message # sent, stopped)))"

text \<open>
  A generator ends with \<open>disconnected\<close>: whenever a run that starts in the loop ends with
  the generator closed, the last message yielded is \<open>disconnected\<close>; and a stopped or
  unregistered stream, or a lost connection, closes the generator within one cycle.
\<close>

definition ends_with_disconnected ::
  "(cycle_env \<Rightarrow> world \<times> 'g \<Rightarrow> (world \<times> 'g) \<times> emission list) \<Rightarrow> ('g \<Rightarrow> phase)
     \<Rightarrow> ('g \<Rightarrow> string) \<Rightarrow> bool" where
  "ends_with_disconnected step ph sid \<longleftrightarrow>
     (\<forall>acts w g. ph g = Streaming \<and> ph (snd (fst (run step acts (w, g)))) = Closed \<longrightarrow>
        wire (snd (run step acts (w, g))) \<noteq> [] \<and>
        event (last (wire (snd (run step acts (w, g))))) = ''disconnected'') \<and>
     (\<forall>env w g. ph g = Streaming \<and> (\<not> alive w (sid g) \<or> xread_reply env = ConnectionError) \<longrightarrow>
        ph (snd (fst (step env (w, g)))) = Closed) \<and>
     (\<forall>env w g. ph g = Streaming \<longrightarrow>
        ph (snd (fst (step env (stop_stream (sid g) w, g)))) = Closed)"

text \<open>Sample worlds and runs.\<close>

definition busy_world :: world where
  "busy_world =
     xadd ''wf-1:progress'' [(''event_type'', ''progress''), (''pct'', ''40'')] 1000 0
       (xadd ''pip-ai:notifications'' [(''user_id'', ''u1''), (''text'', ''hello'')] 1000 0
          (xadd ''pip-ai:notifications'' [(''user_id'', ''u2''), (''text'', ''other'')] 1000 0
             (xadd ''wf-1:progress'' [(''pct'', ''10'')] 1000 0 idle_world)))"

definition wf_viewer :: "world \<times> single_gen" where
  "wf_viewer = fst (stream_workflow_events_start ''wf-1'' ''t0'' busy_world)"

definition file_viewer :: "world \<times> single_gen" where
  "file_viewer = fst (stream_file_analysis_start ''abc'' ''t0'' (fst wf_viewer))"

definition user_viewer :: "world \<times> global_gen" where
  "user_viewer = fst (stream_global_events_start ''u1'' ''t0'' (fst file_viewer))"

definition later_acts :: "act list" where
  "later_acts = [Other (XAdd ''wf-1:progress'' [(''pct'', ''90'')] 1000 3), Cycle quiet_cycle]"

definition inbox_world :: world where
  "inbox_world =
     xadd ''pip-ai:notifications'' [(''workflow_id'', ''user:u1:wf-7''), (''pct'', ''5'')] 1000 0
       (xadd ''pip-ai:notifications'' [(''user_id'', ''u2''), (''text'', ''other'')] 1000 0
          (xadd ''pip-ai:notifications'' [(''user_id'', ''u1''), (''text'', ''hello'')] 1000 0
             idle_world))"

definition inbox_viewer :: "world \<times> global_gen" where
  "inbox_viewer = fst (stream_global_events_start ''u1'' ''t0'' inbox_world)"

definition polling_start :: "world \<times> single_gen" where
  "polling_start = fst (stream_workflow_events_start ''wf-1'' ''t0'' idle_world)"

definition running_cycle :: cycle_env where
  "running_cycle = \<lparr>xread_reply = Replied, query_reply = Status ''RUNNING'', clock = ''t1''\<rparr>"

definition completed_cycle :: cycle_env where
  "completed_cycle = \<lparr>xread_reply = Replied, query_reply = Status ''COMPLETED'', clock = ''t2''\<rparr>"

definition closing_cycle :: cycle_env where
  "closing_cycle = \<lparr>xread_reply = Replied, query_reply = QueryRaised QueryUnsupported,
                     clock = ''t2''\<rparr>"

definition gone :: "nat \<Rightarrow> bool" where
  "gone n = True"

definition upload_published :: world where
  "upload_published =
     publish_analysis_progress ''abc'' [(''event_type'', ''uploaded''), (''progress'', ''25'')]
       ''t0'' Replied 0 idle_world"

definition first_viewer :: "world \<times> single_gen" where
  "first_viewer = fst (stream_workflow_events_start ''wf-1'' ''t0'' idle_world)"

definition second_viewer :: "world \<times> single_gen" where
  "second_viewer = fst (stream_workflow_events_start ''wf-1'' ''t0'' (fst first_viewer))"

section \<open>Properties\<close>

subsection \<open>The relay loops in closed form\<close>

lemma relay_messages_eq:
  "relay_messages dflt k ms lid = (advance lid ms, map (relayed dflt k) ms)"
  by (induction ms arbitrary: lid) (auto simp: advance_def relayed_def)

lemma xread_single:
  "xread w [(k, c)] n = (if xread_one w n k c = [] then [] else [(k, xread_one w n k c)])"
  by (simp add: xread_def)

lemma single_reply_eq:
  "(if xread w [(k, c)] n \<noteq> [] then relay_streams dflt (xread w [(k, c)] n) c else (c, []))
     = (advance c (xread_one w n k c), map (relayed dflt k) (xread_one w n k c))"
  by (simp add: xread_single relay_messages_eq advance_def)

lemma workflow_cycle_replied:
  assumes "phase g = Streaming" "alive w (gen_id g)" "xread_reply env = Replied"
  shows "stream_workflow_events_cycle env (w, g) =
           ((w, g\<lparr>last_id := advance (last_id g)
                     (xread_one w 10 (gen_id g @ '':progress'') (last_id g))\<rparr>),
            map (relayed ''progress'' (gen_id g @ '':progress''))
                (xread_one w 10 (gen_id g @ '':progress'') (last_id g)) @
            (if temporal_client w then
               (case query_reply env of
                  Status st \<Rightarrow> [Synth (format_sse_message ''temporal_status''
                      [(''workflow_id'', gen_id g), (''status'', st),
                       (''timestamp'', clock env)])]
                | QueryRaised e \<Rightarrow> [])
             else []))"
  using assms
  by (simp add: stream_workflow_events_cycle_def single_reply_eq Let_def)

lemma file_cycle_replied:
  assumes "phase g = Streaming" "alive w (gen_id g)" "xread_reply env = Replied"
  shows "stream_file_analysis_cycle env (w, g) =
           ((w, g\<lparr>last_id := advance (last_id g)
                     (xread_one w 10 (gen_id g @ '':analysis'') (last_id g))\<rparr>),
            map (relayed ''analysis'' (gen_id g @ '':analysis''))
                (xread_one w 10 (gen_id g @ '':analysis'') (last_id g)))"
  using assms
  by (simp add: stream_file_analysis_cycle_def single_reply_eq Let_def)

lemma wire_append: "wire (xs @ ys) = wire xs @ wire ys"
  by (induction xs rule: wire.induct) auto

lemma ids_on_append: "ids_on k (xs @ ys) = ids_on k xs @ ids_on k ys"
  by (induction xs rule: ids_on.induct) auto

lemma wire_relayed:
  "wire (map (relayed dflt k) es) =
     map (\<lambda>e. format_sse_message (event_type_of (snd e) dflt) (snd e)) es"
  by (induction es) (auto simp: relayed_def)

lemma ids_on_relayed:
  "ids_on k' (map (relayed dflt k) es) = (if k' = k then map fst es else [])"
  by (induction es) (auto simp: relayed_def)

subsection \<open>The store and what a read returns\<close>

lemma store_ok_xadd:
  assumes "store_ok w"
  shows "store_ok (xadd key fs maxlen extra w)"
proof -
  let ?es = "streams w key @ [(Suc (last_generated w), fs)]"
  have old: "sorted_wrt (<) (map fst (streams w k))"
       "\<forall>e \<in> set (streams w k). fst e \<le> last_generated w" for k
    using assms by (auto simp: store_ok_def)
  have "sorted_wrt (<) (map fst ?es)"
    using old[of key] by (auto simp: sorted_wrt_append)
  then have s: "sorted_wrt (<) (map fst (drop n ?es))" for n
    unfolding drop_map[symmetric] by (rule sorted_wrt_drop)
  have b: "\<forall>e \<in> set (drop n ?es). fst e \<le> Suc (last_generated w)" for n
    using old(2)[of key] by (auto dest!: in_set_dropD)
  show ?thesis
    unfolding store_ok_def xadd_def Let_def
    using s b old by (auto simp: le_SucI simp del: drop_append)
qed

lemma store_ok_other: "store_ok w \<Longrightarrow> store_ok (apply_other op w)"
proof (cases op)
  case (XAdd k fs n x)
  then show "store_ok w \<Longrightarrow> ?thesis" by (simp add: store_ok_xadd)
qed (simp_all add: store_ok_def stop_stream_def)

lemma store_ok_same:
  "store_ok w \<Longrightarrow> streams w' = streams w \<Longrightarrow> last_generated w' = last_generated w \<Longrightarrow> store_ok w'"
  by (simp add: store_ok_def)

lemma sorted_le_last:
  fixes es :: "entry list"
  shows "sorted_wrt (<) (map fst es) \<Longrightarrow> e \<in> set es \<Longrightarrow> fst e \<le> fst (last es)"
  by (induction es) (auto simp: less_imp_le)

lemma xread_one_sorted:
  "store_ok w \<Longrightarrow> sorted_wrt (<) (map fst (xread_one w n k c))"
  unfolding xread_one_def store_ok_def
  by (simp add: sorted_wrt_map sorted_wrt_filter)

lemma xread_one_above: "e \<in> set (xread_one w n k c) \<Longrightarrow> c < fst e"
  unfolding xread_one_def by (auto dest: in_set_takeD)

lemma advance_ge: "c \<le> advance c (xread_one w n k c)"
proof (cases "xread_one w n k c = []")
  case True
  then show ?thesis by (simp add: advance_def)
next
  case False
  then have "last (xread_one w n k c) \<in> set (xread_one w n k c)" by simp
  then have "c < fst (last (xread_one w n k c))" by (rule xread_one_above)
  with False show ?thesis by (simp add: advance_def)
qed

lemma advance_bounds:
  assumes "store_ok w" "e \<in> set (xread_one w n k c)"
  shows "c < fst e \<and> fst e \<le> advance c (xread_one w n k c)"
  using assms xread_one_above[OF assms(2)] sorted_le_last[OF xread_one_sorted[OF assms(1)] assms(2)]
  by (auto simp: advance_def)

subsection \<open>Cursor discipline along a run\<close>

lemma run_append:
  "run step (as @ bs) s =
     (let (s1, out1) = run step as s; (s2, out2) = run step bs s1 in (s2, out1 @ out2))"
proof (induction as arbitrary: s)
  case Nil
  then show ?case by (simp split: prod.splits)
next
  case (Cons a as)
  then show ?case by (cases a) (simp_all split: prod.splits)
qed

lemma disciplined_nil: "disciplined c c []"
  by (simp add: disciplined_def)

lemma disciplined_append:
  "disciplined c c1 xs \<Longrightarrow> disciplined c1 c2 ys \<Longrightarrow> disciplined c c2 (xs @ ys)"
  by (fastforce simp: disciplined_def sorted_wrt_append)

lemma run_discipline:
  fixes cur :: "'g \<Rightarrow> nat"
  assumes step: "\<And>env w g w' g' out.
      store_ok w \<Longrightarrow> ginv g \<Longrightarrow> step env (w, g) = ((w', g'), out) \<Longrightarrow>
        streams w' = streams w \<and> last_generated w' = last_generated w \<and> ginv g' \<and>
        disciplined (cur g) (cur g') (ids_on k out)"
  shows "store_ok w \<Longrightarrow> ginv g \<Longrightarrow> run step acts (w, g) = ((w', g'), out) \<Longrightarrow>
           store_ok w' \<and> ginv g' \<and> disciplined (cur g) (cur g') (ids_on k out)"
proof (induction acts arbitrary: w g out)
  case Nil
  then show ?case by (simp add: disciplined_nil)
next
  case (Cons a acts)
  show ?case
  proof (cases a)
    case (Cycle env)
    obtain w1 g1 out1 where s1: "step env (w, g) = ((w1, g1), out1)"
      by (metis surj_pair)
    obtain out2 where s2: "run step acts (w1, g1) = ((w', g'), out2)" and out: "out = out1 @ out2"
      using Cons.prems(3) Cycle s1 by (auto split: prod.splits)
    from step[OF Cons.prems(1,2) s1]
    have a1: "store_ok w1" "ginv g1" "disciplined (cur g) (cur g1) (ids_on k out1)"
      using Cons.prems(1) by (auto intro: store_ok_same)
    from Cons.IH[OF a1(1,2) s2]
    have a2: "store_ok w'" "ginv g'" "disciplined (cur g1) (cur g') (ids_on k out2)"
      by auto
    show ?thesis
      using a1 a2 out by (simp add: ids_on_append disciplined_append)
  next
    case (Other op)
    then have "run step acts (apply_other op w, g) = ((w', g'), out)"
      using Cons.prems(3) by simp
    from Cons.IH[OF store_ok_other[OF Cons.prems(1)] Cons.prems(2) this]
    show ?thesis .
  qed
qed

lemma workflow_step_discipline:
  assumes "store_ok w" "stream_workflow_events_cycle env (w, g) = ((w', g'), out)"
  shows "streams w' = streams w \<and> last_generated w' = last_generated w \<and>
         disciplined (last_id g) (last_id g') (ids_on k out)"
proof (cases "phase g = Streaming \<and> alive w (gen_id g) \<and> xread_reply env = Replied")
  case True
  then show ?thesis
    using assms advance_ge advance_bounds[OF assms(1)] xread_one_sorted[OF assms(1)]
    by (auto simp: workflow_cycle_replied ids_on_append ids_on_relayed disciplined_def
             split: query_outcome.splits if_splits)
next
  case False
  then show ?thesis
    using assms
    by (auto simp: stream_workflow_events_cycle_def finally_block_def disciplined_def Let_def
             split: phase.splits redis_outcome.splits if_splits)
qed

lemma file_step_discipline:
  assumes "store_ok w" "stream_file_analysis_cycle env (w, g) = ((w', g'), out)"
  shows "streams w' = streams w \<and> last_generated w' = last_generated w \<and>
         disciplined (last_id g) (last_id g') (ids_on k out)"
proof (cases "phase g = Streaming \<and> alive w (gen_id g) \<and> xread_reply env = Replied")
  case True
  then show ?thesis
    using assms advance_ge advance_bounds[OF assms(1)] xread_one_sorted[OF assms(1)]
    by (auto simp: file_cycle_replied ids_on_append ids_on_relayed disciplined_def)
next
  case False
  then show ?thesis
    using assms
    by (auto simp: stream_file_analysis_cycle_def finally_block_def disciplined_def Let_def
             split: phase.splits redis_outcome.splits if_splits)
qed

subsection \<open>The merged stream\<close>

lemma global_messages_out:
  "snd (global_messages uid k ms lids) = map (screened uid k) ms"
  by (induction ms arbitrary: lids) (auto simp: screened_def case_prod_beta)

lemma global_messages_cursor:
  "cursor_of (fst (global_messages uid k0 ms lids)) k =
     (if k = k0 then advance (cursor_of lids k0) ms else cursor_of lids k)"
  by (induction ms arbitrary: lids)
     (auto simp: advance_def cursor_of_def update_conv' case_prod_beta)

lemma global_messages_distinct:
  "distinct (map fst lids) \<Longrightarrow> distinct (map fst (fst (global_messages uid k ms lids)))"
  by (induction ms arbitrary: lids) (auto simp: distinct_update case_prod_beta)

lemma global_streams_out:
  "snd (global_streams uid rs lids) = concat (map (\<lambda>(k, es). map (screened uid k) es) rs)"
proof (induction rs arbitrary: lids)
  case Nil
  then show ?case by simp
next
  case (Cons r rs)
  obtain k es where r: "r = (k, es)" by (cases r)
  show ?case
    using Cons[of "fst (global_messages uid k es lids)"] global_messages_out[of uid k es lids]
    by (simp add: r case_prod_beta)
qed

lemma global_streams_cursor:
  "distinct (map fst rs) \<Longrightarrow>
   cursor_of (fst (global_streams uid rs lids)) k =
     (case map_of rs k of None \<Rightarrow> cursor_of lids k | Some es \<Rightarrow> advance (cursor_of lids k) es)"
proof (induction rs arbitrary: lids)
  case Nil
  then show ?case by simp
next
  case (Cons r rs)
  obtain k0 es where r: "r = (k0, es)" by (cases r)
  have d: "distinct (map fst rs)" and n: "map_of rs k0 = None"
    using Cons.prems by (auto simp: r map_of_eq_None_iff)
  show ?case
    using Cons.IH[OF d, of "fst (global_messages uid k0 es lids)"] n
          global_messages_cursor[of uid k0 es lids k]
    by (auto simp: r case_prod_beta split: option.splits)
qed

lemma global_streams_distinct:
  "distinct (map fst lids) \<Longrightarrow> distinct (map fst (fst (global_streams uid rs lids)))"
proof (induction rs arbitrary: lids)
  case Nil
  then show ?case by simp
next
  case (Cons r rs)
  obtain k0 es where r: "r = (k0, es)" by (cases r)
  show ?case
    using Cons.IH[OF global_messages_distinct[OF Cons.prems, of uid k0 es]]
    by (auto simp: r case_prod_beta)
qed

lemma ids_on_screened: "ids_on k' (map (screened uid k) es) = (if k' = k then map fst es else [])"
  by (induction es) (auto simp: screened_def)

lemma ids_on_concat_screened:
  "distinct (map fst rs) \<Longrightarrow>
   ids_on k (concat (map (\<lambda>(k, es). map (screened uid k) es) rs)) =
     (case map_of rs k of None \<Rightarrow> [] | Some es \<Rightarrow> map fst es)"
proof (induction rs)
  case Nil
  then show ?case by simp
next
  case (Cons r rs)
  obtain k0 es where r: "r = (k0, es)" by (cases r)
  have d: "distinct (map fst rs)" and n: "map_of rs k0 = None"
    using Cons.prems by (auto simp: r map_of_eq_None_iff)
  show ?case
    using Cons.IH[OF d] n by (auto simp: r ids_on_append ids_on_screened)
qed

lemma xread_keys_distinct:
  "distinct (map fst lids) \<Longrightarrow> distinct (map fst (xread w lids n))"
  unfolding xread_def
  by (induction lids) (auto simp: image_iff)

lemma map_of_xread:
  "distinct (map fst lids) \<Longrightarrow>
   map_of (xread w lids n) k =
     (case map_of lids k of
        None \<Rightarrow> None
      | Some c \<Rightarrow> if xread_one w n k c = [] then None else Some (xread_one w n k c))"
  unfolding xread_def
proof (induction lids)
  case Nil
  then show ?case by simp
next
  case (Cons a lids)
  then show ?case
    by (cases a) (auto simp: map_of_eq_None_iff image_iff split: option.splits)
qed

lemma disciplined_xread:
  "store_ok w \<Longrightarrow>
   disciplined c (advance c (xread_one w n k c)) (map fst (xread_one w n k c))"
  using advance_ge[of c w n k] advance_bounds[of w _ n k c] xread_one_sorted[of w n k c]
  by (auto simp: disciplined_def)

lemma global_cycle_replied:
  assumes "gphase g = Streaming" "alive w (global_stream_id (gen_user g))"
          "xread_reply env = Replied"
  shows "stream_global_events_cycle env (w, g) =
           ((w, g\<lparr>last_ids := fst (global_streams (gen_user g) (xread w (last_ids g) 5) (last_ids g))\<rparr>),
            concat (map (\<lambda>(k, es). map (screened (gen_user g) k) es) (xread w (last_ids g) 5)))"
proof (cases "xread w (last_ids g) 5 = []")
  case True
  then show ?thesis
    using assms by (simp add: stream_global_events_cycle_def Let_def)
next
  case False
  then show ?thesis
    using assms global_streams_out[of "gen_user g" "xread w (last_ids g) 5" "last_ids g"]
    by (simp add: stream_global_events_cycle_def case_prod_beta Let_def)
qed

lemma global_step_discipline:
  assumes ok: "store_ok w" and d: "distinct (map fst (last_ids g))"
      and st: "stream_global_events_cycle env (w, g) = ((w', g'), out)"
  shows "streams w' = streams w \<and> last_generated w' = last_generated w \<and>
         distinct (map fst (last_ids g')) \<and>
         disciplined (cursor_of (last_ids g) k) (cursor_of (last_ids g') k) (ids_on k out)"
proof (cases "gphase g = Streaming \<and> alive w (global_stream_id (gen_user g)) \<and>
              xread_reply env = Replied")
  case True
  let ?rs = "xread w (last_ids g) 5"
  have dr: "distinct (map fst ?rs)" by (rule xread_keys_distinct[OF d])
  have w': "w' = w"
    and g': "last_ids g' = fst (global_streams (gen_user g) ?rs (last_ids g))"
    and out: "out = concat (map (\<lambda>(k, es). map (screened (gen_user g) k) es) ?rs)"
    using st True by (auto simp: global_cycle_replied)
  have ids: "ids_on k out = (case map_of ?rs k of None \<Rightarrow> [] | Some es \<Rightarrow> map fst es)"
    unfolding out by (rule ids_on_concat_screened[OF dr])
  have cur: "cursor_of (last_ids g') k =
        (case map_of ?rs k of None \<Rightarrow> cursor_of (last_ids g) k
         | Some es \<Rightarrow> advance (cursor_of (last_ids g) k) es)"
    unfolding g' by (rule global_streams_cursor[OF dr])
  have "disciplined (cursor_of (last_ids g) k) (cursor_of (last_ids g') k) (ids_on k out)"
  proof (cases "map_of (last_ids g) k")
    case None
    then show ?thesis
      unfolding ids cur by (simp add: map_of_xread[OF d] disciplined_nil)
  next
    case (Some c)
    then show ?thesis
      unfolding ids cur using disciplined_xread[OF ok, of c 5 k]
      by (simp add: map_of_xread[OF d] disciplined_nil cursor_of_def)
  qed
  then show ?thesis
    using w' g' global_streams_distinct[OF d] by simp
next
  case False
  then show ?thesis
    using st d
    by (auto simp: stream_global_events_cycle_def finally_block_def disciplined_def Let_def
             split: phase.splits redis_outcome.splits if_splits)
qed

subsection \<open>Runs in two parts\<close>

lemma run_two_parts:
  fixes cur :: "'g \<Rightarrow> nat"
  assumes step: "\<And>env w g w' g' out.
      store_ok w \<Longrightarrow> ginv g \<Longrightarrow> step env (w, g) = ((w', g'), out) \<Longrightarrow>
        streams w' = streams w \<and> last_generated w' = last_generated w \<and> ginv g' \<and>
        disciplined (cur g) (cur g') (ids_on k out)"
      and ok: "store_ok w" and inv: "ginv g"
  shows "cursor_respected step cur k acts1 acts2 (w, g)"
proof -
  obtain w1 g1 out1 where r1: "run step acts1 (w, g) = ((w1, g1), out1)"
    by (metis surj_pair)
  obtain w2 g2 out2 where r2: "run step acts2 (w1, g1) = ((w2, g2), out2)"
    by (metis surj_pair)
  have d1: "store_ok w1" "ginv g1" "disciplined (cur g) (cur g1) (ids_on k out1)"
    using run_discipline[of ginv step cur k, OF step ok inv r1] by auto
  have d2: "disciplined (cur g1) (cur g2) (ids_on k out2)"
    using run_discipline[of ginv step cur k, OF step d1(1,2) r2] by auto
  have "disciplined (cur g) (cur g2) (ids_on k out1 @ ids_on k out2)"
    by (rule disciplined_append[OF d1(3) d2])
  then show ?thesis
    using d1(3) d2 by (simp add: cursor_respected_def r1 r2 ids_on_append disciplined_def)
qed

lemma store_ok_idle: "store_ok idle_world"
  by (simp add: store_ok_def idle_world_def)

lemma store_ok_busy: "store_ok busy_world"
  unfolding busy_world_def by (intro store_ok_xadd store_ok_idle)

lemma store_ok_started:
  "store_ok w \<Longrightarrow> store_ok (fst (fst (stream_workflow_events_start i now w)))"
  "store_ok w \<Longrightarrow> store_ok (fst (fst (stream_file_analysis_start i now w)))"
  "store_ok w \<Longrightarrow> store_ok (fst (fst (stream_global_events_start i now w)))"
  by (simp_all add: store_ok_def stream_workflow_events_start_def
        stream_file_analysis_start_def stream_global_events_start_def)

lemma store_ok_viewers: "store_ok (fst user_viewer)"
  unfolding user_viewer_def file_viewer_def wf_viewer_def
  by (intro store_ok_started store_ok_busy)

lemma workflow_run_respects:
  assumes "store_ok w"
  shows "cursor_respected stream_workflow_events_cycle last_id k acts1 acts2 (w, g)"
proof (rule run_two_parts[where ginv = "\<lambda>g. True"])
  fix env w g w' g' out
  assume "store_ok w" "stream_workflow_events_cycle env (w, g) = ((w', g'), out)"
  from workflow_step_discipline[OF this]
  show "streams w' = streams w \<and> last_generated w' = last_generated w \<and> True \<and>
        disciplined (last_id g) (last_id g') (ids_on k out)"
    by simp
qed (simp_all add: assms)

lemma file_run_respects:
  assumes "store_ok w"
  shows "cursor_respected stream_file_analysis_cycle last_id k acts1 acts2 (w, g)"
proof (rule run_two_parts[where ginv = "\<lambda>g. True"])
  fix env w g w' g' out
  assume "store_ok w" "stream_file_analysis_cycle env (w, g) = ((w', g'), out)"
  from file_step_discipline[OF this]
  show "streams w' = streams w \<and> last_generated w' = last_generated w \<and> True \<and>
        disciplined (last_id g) (last_id g') (ids_on k out)"
    by simp
qed (simp_all add: assms)

lemma global_run_respects:
  assumes "store_ok w" "distinct (map fst (last_ids g))"
  shows "cursor_respected stream_global_events_cycle (\<lambda>g. cursor_of (last_ids g) k) k
           acts1 acts2 (w, g)"
proof (rule run_two_parts[where ginv = "\<lambda>g. distinct (map fst (last_ids g))"])
  fix env w g w' g' out
  assume "store_ok w" "distinct (map fst (last_ids g))"
         "stream_global_events_cycle env (w, g) = ((w', g'), out)"
  from global_step_discipline[OF this]
  show "streams w' = streams w \<and> last_generated w' = last_generated w \<and>
        distinct (map fst (last_ids g')) \<and>
        disciplined (cursor_of (last_ids g) k) (cursor_of (last_ids g') k) (ids_on k out)"
    by simp
qed (simp_all add: assms)

text \<open>
  C2: over the lifetime of a subscription of any of the three kinds, whatever the other
  tasks do between its cycles, the cursor of each channel never goes back, the ids of the
  entries taken from the channel increase strictly, and no entry with an id at or below
  the recorded cursor is taken again. The Redis streams are as Redis keeps them: ids
  increasing within a stream.
\<close>

theorem cursor_never_goes_back:
  assumes "store_ok w"
  shows "cursor_respected stream_workflow_events_cycle last_id k acts1 acts2 (w, g) \<and>
         cursor_respected stream_file_analysis_cycle last_id k acts1 acts2 (w, f) \<and>
         (distinct (map fst (last_ids u)) \<longrightarrow>
            cursor_respected stream_global_events_cycle (\<lambda>g. cursor_of (last_ids g) k) k
              acts1 acts2 (w, u))"
  using workflow_run_respects[OF assms] file_run_respects[OF assms]
        global_run_respects[OF assms]
  by blast

theorem cursor_never_goes_back_witness:
  "store_ok (fst user_viewer) \<and>
   distinct (map fst (last_ids (snd user_viewer))) \<and>
   cursor_respected stream_workflow_events_cycle last_id ''wf-1:progress''
     [Cycle quiet_cycle] later_acts (fst user_viewer, snd wf_viewer) \<and>
   cursor_respected stream_file_analysis_cycle last_id ''wf-1:progress''
     [Cycle quiet_cycle] later_acts (fst user_viewer, snd file_viewer) \<and>
   cursor_respected stream_global_events_cycle
     (\<lambda>g. cursor_of (last_ids g) ''pip-ai:notifications'') ''pip-ai:notifications''
     [Cycle quiet_cycle] later_acts (fst user_viewer, snd user_viewer) \<and>
   ids_on ''wf-1:progress''
     (snd (run stream_workflow_events_cycle (Cycle quiet_cycle # later_acts)
             (fst user_viewer, snd wf_viewer))) = [1, 4, 5] \<and>
   ids_on ''pip-ai:notifications''
     (snd (run stream_global_events_cycle (Cycle quiet_cycle # later_acts)
             (fst user_viewer, snd user_viewer))) = [2, 3]"
proof -
  have d: "distinct (map fst (last_ids (snd user_viewer)))"
    by code_simp
  have i1: "ids_on ''wf-1:progress''
     (snd (run stream_workflow_events_cycle (Cycle quiet_cycle # later_acts)
             (fst user_viewer, snd wf_viewer))) = [1, 4, 5]"
    by code_simp
  have i2: "ids_on ''pip-ai:notifications''
     (snd (run stream_global_events_cycle (Cycle quiet_cycle # later_acts)
             (fst user_viewer, snd user_viewer))) = [2, 3]"
    by code_simp
  show ?thesis
    using store_ok_viewers d i1 i2
      cursor_never_goes_back[OF store_ok_viewers, of "''wf-1:progress''"
        "[Cycle quiet_cycle]" later_acts "snd wf_viewer" "snd file_viewer" "snd user_viewer"]
      cursor_never_goes_back[OF store_ok_viewers, of "''pip-ai:notifications''"
        "[Cycle quiet_cycle]" later_acts "snd wf_viewer" "snd file_viewer" "snd user_viewer"]
    by simp
qed

subsection \<open>The filter of the merged stream\<close>

lemma wire_screened:
  "wire (map (screened uid k) es) =
     map (\<lambda>e. format_sse_message (event_type_of (snd e) ''notification'') (snd e))
         (filter (\<lambda>e. is_user_event (snd e) uid) es)"
  by (induction es) (auto simp: screened_def)

lemma wire_concat_screened:
  "wire (concat (map (\<lambda>(k, es). map (screened uid k) es) rs)) =
     map (\<lambda>e. format_sse_message (event_type_of (snd e) ''notification'') (snd e))
         (filter (\<lambda>e. is_user_event (snd e) uid) (concat (map snd rs)))"
  by (induction rs) (auto simp: wire_append wire_screened)

lemma xread_member:
  assumes "distinct (map fst lids)" "(k, es) \<in> set (xread w lids n)"
  shows "\<exists>c. map_of lids k = Some c \<and> es = xread_one w n k c \<and> es \<noteq> []"
proof -
  have "map_of (xread w lids n) k = Some es"
    using assms xread_keys_distinct[OF assms(1)] by simp
  then show ?thesis
    by (auto simp: map_of_xread[OF assms(1)] split: option.splits if_splits)
qed

lemma run_above_cursor:
  assumes "store_ok w" "distinct (map fst (last_ids g))"
          "i \<in> set (ids_on k (snd (run stream_global_events_cycle acts (w, g))))"
  shows "cursor_of (last_ids g) k < i"
proof -
  obtain w' g' out where r: "run stream_global_events_cycle acts (w, g) = ((w', g'), out)"
    by (metis surj_pair)
  have "disciplined (cursor_of (last_ids g) k) (cursor_of (last_ids g') k) (ids_on k out)"
    using run_discipline[of "\<lambda>g. distinct (map fst (last_ids g))" stream_global_events_cycle
            "\<lambda>g. cursor_of (last_ids g) k" k w g acts w' g' out]
          global_step_discipline assms(1,2) r
    by blast
  then show ?thesis
    using assms(3) r by (simp add: disciplined_def)
qed

text \<open>
  C5: in a cycle of the merged stream of a user, the messages yielded are those of the
  entries read for which \<open>_is_user_event\<close> holds, in the order read; the cursor of every
  channel in the reply moves to the id of the last entry read from it, yielded or not;
  and none of the entries read, yielded or not, is taken again in any later cycle.
\<close>

theorem merged_stream_filters_and_advances:
  assumes ok: "store_ok w" and d: "distinct (map fst (last_ids g))"
      and live: "gphase g = Streaming" "alive w (global_stream_id (gen_user g))"
      and rep: "xread_reply env = Replied"
  shows "(let r = stream_global_events_cycle env (w, g); reply = xread w (last_ids g) 5
          in fst (fst r) = w \<and>
             snd r = concat (map (\<lambda>(k, es). map (screened (gen_user g) k) es) reply) \<and>
             wire (snd r) =
               map (\<lambda>e. format_sse_message (event_type_of (snd e) ''notification'') (snd e))
                   (filter (\<lambda>e. is_user_event (snd e) (gen_user g))
                           (concat (map snd reply))) \<and>
             (\<forall>(k, es) \<in> set reply.
                cursor_of (last_ids (snd (fst r))) k = fst (last es) \<and>
                (\<forall>e \<in> set es. \<forall>acts.
                   fst e \<notin> set (ids_on k (snd (run stream_global_events_cycle acts (fst r)))))))"
proof -
  let ?rs = "xread w (last_ids g) 5"
  define g' where "g' = g\<lparr>last_ids := fst (global_streams (gen_user g) ?rs (last_ids g))\<rparr>"
  have cyc: "stream_global_events_cycle env (w, g) =
               ((w, g'), concat (map (\<lambda>(k, es). map (screened (gen_user g) k) es) ?rs))"
    unfolding g'_def by (rule global_cycle_replied[OF live rep])
  have d': "distinct (map fst (last_ids g'))"
    unfolding g'_def using global_streams_distinct[OF d] by simp
  have dr: "distinct (map fst ?rs)" by (rule xread_keys_distinct[OF d])
  have per: "cursor_of (last_ids g') k = fst (last es) \<and>
             (\<forall>e \<in> set es. \<forall>acts.
                fst e \<notin> set (ids_on k (snd (run stream_global_events_cycle acts (w, g')))))"
    if mem: "(k, es) \<in> set ?rs" for k es
  proof -
    obtain c where c: "map_of (last_ids g) k = Some c" "es = xread_one w 5 k c" "es \<noteq> []"
      using xread_member[OF d mem] by blast
    have m: "map_of ?rs k = Some es" using mem dr by simp
    have cur: "cursor_of (last_ids g') k = fst (last es)"
      using global_streams_cursor[OF dr, of "gen_user g" "last_ids g" k] m c(3)
      by (simp add: g'_def advance_def)
    have "fst e \<notin> set (ids_on k (snd (run stream_global_events_cycle acts (w, g'))))"
      if e: "e \<in> set es" for e acts
    proof
      assume "fst e \<in> set (ids_on k (snd (run stream_global_events_cycle acts (w, g'))))"
      from run_above_cursor[OF ok d' this]
      have "fst (last es) < fst e" by (simp add: cur)
      moreover have "fst e \<le> fst (last es)"
        using sorted_le_last[OF xread_one_sorted[OF ok, of 5 k c]] e c(2) by simp
      ultimately show False by simp
    qed
    with cur show ?thesis by blast
  qed
  show ?thesis
    using per by (auto simp: cyc Let_def wire_concat_screened)
qed

theorem merged_stream_filters_and_advances_witness:
  "store_ok (fst inbox_viewer) \<and>
   distinct (map fst (last_ids (snd inbox_viewer))) \<and>
   gphase (snd inbox_viewer) = Streaming \<and>
   alive (fst inbox_viewer) (global_stream_id (gen_user (snd inbox_viewer))) \<and>
   xread_reply quiet_cycle = Replied \<and>
   xread (fst inbox_viewer) (last_ids (snd inbox_viewer)) 5 =
     [(''pip-ai:notifications'',
       [(1, [(''user_id'', ''u1''), (''text'', ''hello'')]),
        (2, [(''user_id'', ''u2''), (''text'', ''other'')]),
        (3, [(''workflow_id'', ''user:u1:wf-7''), (''pct'', ''5'')])])] \<and>
   wire (snd (stream_global_events_cycle quiet_cycle inbox_viewer)) =
     [SSE ''notification'' [(''user_id'', ''u1''), (''text'', ''hello'')],
      SSE ''notification'' [(''workflow_id'', ''user:u1:wf-7''), (''pct'', ''5'')]] \<and>
   cursor_of (last_ids (snd (fst (stream_global_events_cycle quiet_cycle inbox_viewer))))
     ''pip-ai:notifications'' = 3 \<and>
   2 \<notin> set (ids_on ''pip-ai:notifications''
              (snd (run stream_global_events_cycle [Cycle quiet_cycle, Cycle quiet_cycle]
                      (fst (stream_global_events_cycle quiet_cycle inbox_viewer)))))"
proof -
  have ok: "store_ok (fst inbox_viewer)"
    unfolding inbox_viewer_def inbox_world_def
    by (intro store_ok_started store_ok_xadd store_ok_idle)
  have d: "distinct (map fst (last_ids (snd inbox_viewer)))" by code_simp
  have p: "gphase (snd inbox_viewer) = Streaming" by code_simp
  have a: "alive (fst inbox_viewer) (global_stream_id (gen_user (snd inbox_viewer)))"
    by code_simp
  have r: "xread_reply quiet_cycle = Replied" by code_simp
  have x: "xread (fst inbox_viewer) (last_ids (snd inbox_viewer)) 5 =
     [(''pip-ai:notifications'',
       [(1, [(''user_id'', ''u1''), (''text'', ''hello'')]),
        (2, [(''user_id'', ''u2''), (''text'', ''other'')]),
        (3, [(''workflow_id'', ''user:u1:wf-7''), (''pct'', ''5'')])])]"
    by code_simp
  have w: "wire (snd (stream_global_events_cycle quiet_cycle inbox_viewer)) =
     [SSE ''notification'' [(''user_id'', ''u1''), (''text'', ''hello'')],
      SSE ''notification'' [(''workflow_id'', ''user:u1:wf-7''), (''pct'', ''5'')]]"
    by code_simp
  have c: "cursor_of
     (last_ids (snd (fst (stream_global_events_cycle quiet_cycle inbox_viewer))))
     ''pip-ai:notifications'' = 3"
    using merged_stream_filters_and_advances[OF ok d p a r]
    by (simp add: Let_def x)
  have "\<forall>acts. 2 \<notin> set (ids_on ''pip-ai:notifications''
              (snd (run stream_global_events_cycle acts
                      (fst (stream_global_events_cycle quiet_cycle inbox_viewer)))))"
    using merged_stream_filters_and_advances[OF ok d p a r]
    by (simp add: Let_def x)
  then have n: "2 \<notin> set (ids_on ''pip-ai:notifications''
              (snd (run stream_global_events_cycle [Cycle quiet_cycle, Cycle quiet_cycle]
                      (fst (stream_global_events_cycle quiet_cycle inbox_viewer)))))"
    by blast
  show ?thesis
    by (intro conjI ok d p a r x w c n)
qed

subsection \<open>Publishing and the registry\<close>

lemma update_unknown: "k \<notin> fst ` set al \<Longrightarrow> AList.update k v al = al @ [(k, v)]"
  by (induction al) auto

lemma length_update:
  "length (AList.update k v al) = (if k \<in> fst ` set al then length al else Suc (length al))"
  by (induction al) auto

text \<open>
  C10: whatever happens to the append, the publish endpoints answer with status
  \<open>published\<close> (and the id they were given). Without a Redis client, or when the append
  raises, nothing is stored: the world is the one before the call.
\<close>

theorem publish_response_regardless:
  "snd (publish_workflow_event workflow_id d now oc extra w) =
     [(''status'', ''published''), (''workflow_id'', workflow_id)] \<and>
   snd (publish_analysis_event file_id d now oc extra w) =
     [(''status'', ''published''), (''file_id'', file_id)] \<and>
   (\<not> redis_client w \<or> oc \<noteq> Replied \<longrightarrow>
      fst (publish_workflow_event workflow_id d now oc extra w) = w \<and>
      fst (publish_analysis_event file_id d now oc extra w) = w)"
  by (cases oc)
     (simp_all add: publish_workflow_event_def publish_analysis_event_def
        publish_workflow_progress_def publish_analysis_progress_def)

theorem publish_response_regardless_witness:
  "\<not> redis_client offline_world \<and> OtherException ''boom'' \<noteq> Replied \<and>
   publish_workflow_event ''wf-1'' [(''step'', ''started'')] ''t0'' Replied 0 offline_world =
     (offline_world, [(''status'', ''published''), (''workflow_id'', ''wf-1'')]) \<and>
   publish_analysis_event ''abc'' [(''step'', ''uploaded'')] ''t0''
       (OtherException ''boom'') 0 idle_world =
     (idle_world, [(''status'', ''published''), (''file_id'', ''abc'')])"
  using publish_response_regardless[of "''wf-1''" "[(''step'', ''started'')]" "''t0''" Replied
          0 offline_world "''abc''"]
        publish_response_regardless[of "''wf-1''" "[(''step'', ''uploaded'')]" "''t0''"
          "OtherException ''boom''" 0 idle_world "''abc''"]
  by (simp add: offline_world_def prod_eq_iff)

text \<open>
  C7, as the claim states it: stopping an id that the registry does not hold would leave
  the registry and the count of the health endpoint as they were. It does not: the id
  is entered with the flag \<open>False\<close>, and the count goes from 0 to 1.
\<close>

theorem stop_unknown_counterexample:
  "active_streams (stop_stream ''ghost'' idle_world) \<noteq> active_streams idle_world \<and>
   active_streams_count (stream_health ''t0'' (stop_stream ''ghost'' idle_world)) = 1 \<and>
   active_streams_count (stream_health ''t0'' idle_world) = 0"
  by (simp add: stop_stream_def idle_world_def stream_health_def Let_def)

text \<open>
  C7, amended: \<open>stop_stream\<close> is idempotent and always returns. Afterwards the id is not
  alive and the liveness of every other id is as before. An id the registry did not hold
  is added to it with the flag \<open>False\<close>, so the count of the health endpoint grows by
  one; for an id the registry held the count stays.
\<close>

theorem stop_stream_effect:
  "stop_stream i (stop_stream i w) = stop_stream i w \<and>
   alive (stop_stream i w) j = (j \<noteq> i \<and> alive w j) \<and>
   (i \<notin> fst ` set (active_streams w) \<longrightarrow>
      active_streams (stop_stream i w) = active_streams w @ [(i, False)] \<and>
      active_streams_count (stream_health now (stop_stream i w)) =
        Suc (active_streams_count (stream_health now w))) \<and>
   (i \<in> fst ` set (active_streams w) \<longrightarrow>
      active_streams_count (stream_health now (stop_stream i w)) =
        active_streams_count (stream_health now w))"
  by (auto simp: stop_stream_def alive_def update_conv' update_unknown stream_health_def
        length_update Let_def)

theorem stop_stream_effect_witness:
  "''ghost'' \<notin> fst ` set (active_streams idle_world) \<and>
   stop_stream ''ghost'' (stop_stream ''ghost'' idle_world) = stop_stream ''ghost'' idle_world \<and>
   active_streams (stop_stream ''ghost'' idle_world) = [(''ghost'', False)] \<and>
   active_streams_count (stream_health ''t0'' (stop_stream ''ghost'' idle_world)) = 1 \<and>
   \<not> alive (stop_stream ''ghost'' idle_world) ''ghost''"
  using stop_stream_effect[of "''ghost''" idle_world "''ghost''" "''t0''"]
  by (simp add: idle_world_def stream_health_def alive_def stop_stream_def Let_def)

subsection \<open>Lost connections\<close>

lemma run_closed_silent:
  assumes silent: "\<And>env w g. ph g = Closed \<Longrightarrow> step env (w, g) = ((w, g), [])"
  shows "ph g = Closed \<Longrightarrow>
         snd (run step acts (w, g)) = [] \<and> ph (snd (fst (run step acts (w, g)))) = Closed"
proof (induction acts arbitrary: w)
  case Nil
  then show ?case by simp
next
  case (Cons a acts)
  then show ?case
    by (cases a) (simp_all add: silent)
qed

lemma workflow_closed_silent:
  "phase g = Closed \<Longrightarrow> stream_workflow_events_cycle env (w, g) = ((w, g), [])"
  by (simp add: stream_workflow_events_cycle_def)

lemma file_closed_silent:
  "phase g = Closed \<Longrightarrow> stream_file_analysis_cycle env (w, g) = ((w, g), [])"
  by (simp add: stream_file_analysis_cycle_def)

lemma global_closed_silent:
  "gphase g = Closed \<Longrightarrow> stream_global_events_cycle env (w, g) = ((w, g), [])"
  by (simp add: stream_global_events_cycle_def)

lemma workflow_cycle_lost:
  assumes "phase g = Streaming" "alive w (gen_id g)" "xread_reply env = ConnectionError"
  shows "stream_workflow_events_cycle env (w, g) =
           ((w\<lparr>active_streams := AList.delete (gen_id g) (active_streams w)\<rparr>,
             g\<lparr>phase := Closed\<rparr>),
            [Synth (SSE ''error'' [(''message'', ''Redis connection lost''),
                                   (''timestamp'', clock env)]),
             Synth (SSE ''disconnected'' [(''workflow_id'', gen_id g),
                                          (''timestamp'', clock env)])])"
  using assms
  by (simp add: stream_workflow_events_cycle_def finally_block_def format_sse_message_def)

lemma file_cycle_lost:
  assumes "phase g = Streaming" "alive w (gen_id g)" "xread_reply env = ConnectionError"
  shows "stream_file_analysis_cycle env (w, g) =
           ((w\<lparr>active_streams := AList.delete (gen_id g) (active_streams w)\<rparr>,
             g\<lparr>phase := Closed\<rparr>),
            [Synth (SSE ''error'' [(''message'', ''Redis connection lost'')]),
             Synth (SSE ''disconnected'' [(''file_id'', gen_id g),
                                          (''timestamp'', clock env)])])"
  using assms
  by (simp add: stream_file_analysis_cycle_def finally_block_def format_sse_message_def)

lemma global_cycle_lost:
  assumes "gphase g = Streaming" "alive w (global_stream_id (gen_user g))"
          "xread_reply env = ConnectionError"
  shows "stream_global_events_cycle env (w, g) =
           ((w\<lparr>active_streams :=
                  AList.delete (global_stream_id (gen_user g)) (active_streams w)\<rparr>,
             g\<lparr>gphase := Closed\<rparr>),
            [Synth (SSE ''error'' [(''message'', ''Redis connection lost'')]),
             Synth (SSE ''disconnected'' [(''user_id'', gen_user g),
                                          (''timestamp'', clock env)])])"
  using assms
  by (simp add: stream_global_events_cycle_def finally_block_def format_sse_message_def)

text \<open>
  C3: when \<open>xread\<close> raises \<open>redis.ConnectionError\<close> in the loop of a subscription of any
  kind, the subscription yields one \<open>error\<close> message and then \<open>disconnected\<close>, its id is
  no longer in \<open>active_streams\<close>, and it yields nothing in any later run.
\<close>

theorem connection_lost_teardown:
  assumes "xread_reply env = ConnectionError"
  shows
    "(phase g = Streaming \<and> alive w (gen_id g) \<longrightarrow>
        wire (snd (stream_workflow_events_cycle env (w, g))) =
          [SSE ''error'' [(''message'', ''Redis connection lost''), (''timestamp'', clock env)],
           SSE ''disconnected'' [(''workflow_id'', gen_id g), (''timestamp'', clock env)]] \<and>
        gen_id g \<notin> fst ` set (active_streams (fst (fst (stream_workflow_events_cycle env (w, g))))) \<and>
        snd (run stream_workflow_events_cycle acts
               (fst (stream_workflow_events_cycle env (w, g)))) = []) \<and>
     (phase f = Streaming \<and> alive w (gen_id f) \<longrightarrow>
        wire (snd (stream_file_analysis_cycle env (w, f))) =
          [SSE ''error'' [(''message'', ''Redis connection lost'')],
           SSE ''disconnected'' [(''file_id'', gen_id f), (''timestamp'', clock env)]] \<and>
        gen_id f \<notin> fst ` set (active_streams (fst (fst (stream_file_analysis_cycle env (w, f))))) \<and>
        snd (run stream_file_analysis_cycle acts
               (fst (stream_file_analysis_cycle env (w, f)))) = []) \<and>
     (gphase u = Streaming \<and> alive w (global_stream_id (gen_user u)) \<longrightarrow>
        wire (snd (stream_global_events_cycle env (w, u))) =
          [SSE ''error'' [(''message'', ''Redis connection lost'')],
           SSE ''disconnected'' [(''user_id'', gen_user u), (''timestamp'', clock env)]] \<and>
        global_stream_id (gen_user u) \<notin>
          fst ` set (active_streams (fst (fst (stream_global_events_cycle env (w, u))))) \<and>
        snd (run stream_global_events_cycle acts
               (fst (stream_global_events_cycle env (w, u)))) = [])"
proof (intro conjI impI)
  assume a: "phase g = Streaming \<and> alive w (gen_id g)"
  note c = workflow_cycle_lost[OF conjunct1[OF a] conjunct2[OF a] assms]
  show "wire (snd (stream_workflow_events_cycle env (w, g))) =
          [SSE ''error'' [(''message'', ''Redis connection lost''), (''timestamp'', clock env)],
           SSE ''disconnected'' [(''workflow_id'', gen_id g), (''timestamp'', clock env)]]"
    by (simp add: c)
  show "gen_id g \<notin> fst ` set (active_streams (fst (fst (stream_workflow_events_cycle env (w, g)))))"
    by (simp add: c delete_notin_dom)
  show "snd (run stream_workflow_events_cycle acts
               (fst (stream_workflow_events_cycle env (w, g)))) = []"
    using run_closed_silent[of phase stream_workflow_events_cycle "g\<lparr>phase := Closed\<rparr>"]
    by (simp add: c workflow_closed_silent)
next
  assume a: "phase f = Streaming \<and> alive w (gen_id f)"
  note c = file_cycle_lost[OF conjunct1[OF a] conjunct2[OF a] assms]
  show "wire (snd (stream_file_analysis_cycle env (w, f))) =
          [SSE ''error'' [(''message'', ''Redis connection lost'')],
           SSE ''disconnected'' [(''file_id'', gen_id f), (''timestamp'', clock env)]]"
    by (simp add: c)
  show "gen_id f \<notin> fst ` set (active_streams (fst (fst (stream_file_analysis_cycle env (w, f)))))"
    by (simp add: c delete_notin_dom)
  show "snd (run stream_file_analysis_cycle acts
               (fst (stream_file_analysis_cycle env (w, f)))) = []"
    using run_closed_silent[of phase stream_file_analysis_cycle "f\<lparr>phase := Closed\<rparr>"]
    by (simp add: c file_closed_silent)
next
  assume a: "gphase u = Streaming \<and> alive w (global_stream_id (gen_user u))"
  note c = global_cycle_lost[OF conjunct1[OF a] conjunct2[OF a] assms]
  show "wire (snd (stream_global_events_cycle env (w, u))) =
          [SSE ''error'' [(''message'', ''Redis connection lost'')],
           SSE ''disconnected'' [(''user_id'', gen_user u), (''timestamp'', clock env)]]"
    by (simp add: c)
  show "global_stream_id (gen_user u) \<notin>
          fst ` set (active_streams (fst (fst (stream_global_events_cycle env (w, u)))))"
    by (simp add: c delete_notin_dom)
  show "snd (run stream_global_events_cycle acts
               (fst (stream_global_events_cycle env (w, u)))) = []"
    using run_closed_silent[of gphase stream_global_events_cycle "u\<lparr>gphase := Closed\<rparr>"]
    by (simp add: c global_closed_silent)
qed

theorem connection_lost_teardown_witness:
  "xread_reply lost_cycle = ConnectionError \<and>
   phase (snd wf_viewer) = Streaming \<and> alive (fst user_viewer) (gen_id (snd wf_viewer)) \<and>
   phase (snd file_viewer) = Streaming \<and> alive (fst user_viewer) (gen_id (snd file_viewer)) \<and>
   gphase (snd user_viewer) = Streaming \<and>
   alive (fst user_viewer) (global_stream_id (gen_user (snd user_viewer))) \<and>
   wire (snd (stream_workflow_events_cycle lost_cycle (fst user_viewer, snd wf_viewer))) =
     [SSE ''error'' [(''message'', ''Redis connection lost''), (''timestamp'', ''t2'')],
      SSE ''disconnected'' [(''workflow_id'', ''wf-1''), (''timestamp'', ''t2'')]] \<and>
   wire (snd (stream_file_analysis_cycle lost_cycle (fst user_viewer, snd file_viewer))) =
     [SSE ''error'' [(''message'', ''Redis connection lost'')],
      SSE ''disconnected'' [(''file_id'', ''abc''), (''timestamp'', ''t2'')]] \<and>
   wire (snd (stream_global_events_cycle lost_cycle (fst user_viewer, snd user_viewer))) =
     [SSE ''error'' [(''message'', ''Redis connection lost'')],
      SSE ''disconnected'' [(''user_id'', ''u1''), (''timestamp'', ''t2'')]] \<and>
   map fst (active_streams
     (fst (fst (stream_workflow_events_cycle lost_cycle (fst user_viewer, snd wf_viewer))))) =
     [''abc'', ''user:u1:events''] \<and>
   snd (run stream_workflow_events_cycle later_acts
          (fst (stream_workflow_events_cycle lost_cycle (fst user_viewer, snd wf_viewer)))) = []"
proof -
  have h: "xread_reply lost_cycle = ConnectionError" by code_simp
  have g: "phase (snd wf_viewer) = Streaming \<and> alive (fst user_viewer) (gen_id (snd wf_viewer))"
    by code_simp
  have f: "phase (snd file_viewer) = Streaming \<and>
           alive (fst user_viewer) (gen_id (snd file_viewer))"
    by code_simp
  have u: "gphase (snd user_viewer) = Streaming \<and>
           alive (fst user_viewer) (global_stream_id (gen_user (snd user_viewer)))"
    by code_simp
  have c: "clock lost_cycle = ''t2''" "gen_id (snd wf_viewer) = ''wf-1''"
          "gen_id (snd file_viewer) = ''abc''" "gen_user (snd user_viewer) = ''u1''"
    by code_simp+
  have r: "map fst (active_streams
     (fst (fst (stream_workflow_events_cycle lost_cycle (fst user_viewer, snd wf_viewer))))) =
     [''abc'', ''user:u1:events'']"
    by code_simp
  show ?thesis
    using h g f u r
      connection_lost_teardown[OF h, of "snd wf_viewer" "fst user_viewer" later_acts
        "snd file_viewer" "snd user_viewer"]
    by (simp add: c)
qed

subsection \<open>The status query\<close>

text \<open>
  C6: when the Temporal query of a cycle raises, whatever it raises, the cycle yields
  the entries read and nothing else, leaves the world as it was and the generator in its
  loop, with the cursor at the id of the last entry read (where it was, when none was
  read). In whatever world the next cycle runs, if the stream is still alive there and
  \<open>xread\<close> replies, the entries read after that cursor are yielded and the cursor moves
  to the last of them.
\<close>

theorem status_query_failure_keeps_streaming:
  assumes "phase g = Streaming" "alive w (gen_id g)" "temporal_client w"
          "xread_reply env = Replied" "query_reply env = QueryRaised err"
  shows "(let key = gen_id g @ '':progress'';
              r = stream_workflow_events_cycle env (w, g);
              g' = snd (fst r)
          in fst (fst r) = w \<and> phase g' = Streaming \<and> gen_id g' = gen_id g \<and>
             last_id g' = advance (last_id g) (xread_one w 10 key (last_id g)) \<and>
             snd r = map (relayed ''progress'' key) (xread_one w 10 key (last_id g)) \<and>
             (\<forall>w2 env2. alive w2 (gen_id g) \<and> xread_reply env2 = Replied \<longrightarrow>
                last_id (snd (fst (stream_workflow_events_cycle env2 (w2, g')))) =
                  advance (last_id g') (xread_one w2 10 key (last_id g')) \<and>
                prefix (map (relayed ''progress'' key) (xread_one w2 10 key (last_id g')))
                       (snd (stream_workflow_events_cycle env2 (w2, g')))))"
proof -
  let ?key = "gen_id g @ '':progress''"
  let ?g' = "g\<lparr>last_id := advance (last_id g) (xread_one w 10 ?key (last_id g))\<rparr>"
  have c: "stream_workflow_events_cycle env (w, g) =
             ((w, ?g'), map (relayed ''progress'' ?key) (xread_one w 10 ?key (last_id g)))"
    using assms by (simp add: workflow_cycle_replied)
  have "last_id (snd (fst (stream_workflow_events_cycle env2 (w2, ?g')))) =
          advance (last_id ?g') (xread_one w2 10 ?key (last_id ?g')) \<and>
        prefix (map (relayed ''progress'' ?key) (xread_one w2 10 ?key (last_id ?g')))
               (snd (stream_workflow_events_cycle env2 (w2, ?g')))"
    if "alive w2 (gen_id g)" "xread_reply env2 = Replied" for w2 env2
    using that assms(1) by (simp add: workflow_cycle_replied)
  then show ?thesis
    using assms(1) by (simp add: c Let_def)
qed

theorem status_query_failure_keeps_streaming_witness:
  "phase (snd wf_viewer) = Streaming \<and> alive (fst user_viewer) (gen_id (snd wf_viewer)) \<and>
   temporal_client (fst user_viewer) \<and> xread_reply quiet_cycle = Replied \<and>
   query_reply quiet_cycle = QueryRaised NotFound \<and>
   phase (snd (fst (stream_workflow_events_cycle quiet_cycle
                      (fst user_viewer, snd wf_viewer)))) = Streaming \<and>
   last_id (snd (fst (stream_workflow_events_cycle quiet_cycle
                        (fst user_viewer, snd wf_viewer)))) = 4 \<and>
   wire (snd (stream_workflow_events_cycle quiet_cycle (fst user_viewer, snd wf_viewer))) =
     [SSE ''progress'' [(''pct'', ''10'')],
      SSE ''progress'' [(''event_type'', ''progress''), (''pct'', ''40'')]] \<and>
   wire (snd (run stream_workflow_events_cycle later_acts
                (fst (stream_workflow_events_cycle quiet_cycle
                        (fst user_viewer, snd wf_viewer))))) =
     [SSE ''progress'' [(''pct'', ''90'')]]"
proof -
  have h: "phase (snd wf_viewer) = Streaming" "alive (fst user_viewer) (gen_id (snd wf_viewer))"
          "temporal_client (fst user_viewer)" "xread_reply quiet_cycle = Replied"
          "query_reply quiet_cycle = QueryRaised NotFound"
    by code_simp+
  have w1: "wire (snd (stream_workflow_events_cycle quiet_cycle
                         (fst user_viewer, snd wf_viewer))) =
     [SSE ''progress'' [(''pct'', ''10'')],
      SSE ''progress'' [(''event_type'', ''progress''), (''pct'', ''40'')]]"
    by code_simp
  have w2: "wire (snd (run stream_workflow_events_cycle later_acts
                (fst (stream_workflow_events_cycle quiet_cycle
                        (fst user_viewer, snd wf_viewer))))) =
     [SSE ''progress'' [(''pct'', ''90'')]]"
    by code_simp
  have p: "phase (snd (fst (stream_workflow_events_cycle quiet_cycle
                      (fst user_viewer, snd wf_viewer)))) = Streaming"
    using status_query_failure_keeps_streaming[OF h]
    by (simp add: Let_def)
  have a: "advance (last_id (snd wf_viewer))
             (xread_one (fst user_viewer) 10 (gen_id (snd wf_viewer) @ '':progress'')
                (last_id (snd wf_viewer))) = 4"
    by code_simp
  have l: "last_id (snd (fst (stream_workflow_events_cycle quiet_cycle
                        (fst user_viewer, snd wf_viewer)))) = 4"
    using status_query_failure_keeps_streaming[OF h] a
    by (simp add: Let_def)
  show ?thesis
    by (intro conjI h p l w1 w2)
qed

text \<open>
  C9, as the claim states it: the status query would not be issued on every cycle. In
  two cycles in a row, each yields a \<open>temporal_status\<close> message with the status the query
  of that cycle returned.
\<close>

theorem status_query_every_cycle_counterexample:
  "wire (snd (run stream_workflow_events_cycle [Cycle running_cycle, Cycle completed_cycle]
                polling_start)) =
     [SSE ''temporal_status''
        [(''workflow_id'', ''wf-1''), (''status'', ''RUNNING''), (''timestamp'', ''t1'')],
      SSE ''temporal_status''
        [(''workflow_id'', ''wf-1''), (''status'', ''COMPLETED''), (''timestamp'', ''t2'')]]"
  by code_simp

text \<open>
  C9, amended: with a Temporal client attached, every cycle of the workflow loop in
  which \<open>xread\<close> replies issues the status query, after the entries of the cycle: the
  cycle yields the entries read, followed by \<open>temporal_status\<close> with the status the query
  returned, or by nothing when the query raised.
\<close>

theorem status_query_each_replied_cycle:
  assumes "phase g = Streaming" "alive w (gen_id g)" "temporal_client w"
          "xread_reply env = Replied"
  shows "wire (snd (stream_workflow_events_cycle env (w, g))) =
           map (\<lambda>e. format_sse_message (event_type_of (snd e) ''progress'') (snd e))
               (xread_one w 10 (gen_id g @ '':progress'') (last_id g)) @
           (case query_reply env of
              Status st \<Rightarrow>
                [SSE ''temporal_status''
                   [(''workflow_id'', gen_id g), (''status'', st), (''timestamp'', clock env)]]
            | QueryRaised e \<Rightarrow> [])"
  using assms
  by (simp add: workflow_cycle_replied wire_append wire_relayed format_sse_message_def
           split: query_outcome.splits)

theorem status_query_each_replied_cycle_witness:
  "phase (snd polling_start) = Streaming \<and> alive (fst polling_start) (gen_id (snd polling_start)) \<and>
   temporal_client (fst polling_start) \<and> xread_reply running_cycle = Replied \<and>
   wire (snd (stream_workflow_events_cycle running_cycle polling_start)) =
     [SSE ''temporal_status''
        [(''workflow_id'', ''wf-1''), (''status'', ''RUNNING''), (''timestamp'', ''t1'')]]"
proof -
  have h: "phase (snd polling_start) = Streaming"
          "alive (fst polling_start) (gen_id (snd polling_start))"
          "temporal_client (fst polling_start)" "xread_reply running_cycle = Replied"
    by code_simp+
  have x: "xread_one (fst polling_start) 10 ''wf-1:progress''
             (last_id (snd polling_start)) = []"
    by code_simp
  have c: "query_reply running_cycle = Status ''RUNNING''" "clock running_cycle = ''t1''"
          "gen_id (snd polling_start) = ''wf-1''"
    by code_simp+
  have "wire (snd (stream_workflow_events_cycle running_cycle polling_start)) =
     [SSE ''temporal_status''
        [(''workflow_id'', ''wf-1''), (''status'', ''RUNNING''), (''timestamp'', ''t1'')]]"
    using status_query_each_replied_cycle[OF h] by (simp add: x c)
  then show ?thesis
    using h by blast
qed

subsection \<open>The last message\<close>

lemma run_ends_disconnected:
  assumes silent: "\<And>env w g. ph g = Closed \<Longrightarrow> step env (w, g) = ((w, g), [])"
      and ends: "\<And>env w g w' g' out.
        ph g = Streaming \<Longrightarrow> step env (w, g) = ((w', g'), out) \<Longrightarrow> ph g' = Closed \<Longrightarrow>
          wire out \<noteq> [] \<and> event (last (wire out)) = ''disconnected''"
  shows "ph g = Streaming \<Longrightarrow> run step acts (w, g) = ((w', g'), out) \<Longrightarrow> ph g' = Closed \<Longrightarrow>
         wire out \<noteq> [] \<and> event (last (wire out)) = ''disconnected''"
proof (induction acts arbitrary: w g out)
  case Nil
  then show ?case by simp
next
  case (Cons a acts)
  show ?case
  proof (cases a)
    case (Cycle env)
    obtain w1 g1 out1 where s1: "step env (w, g) = ((w1, g1), out1)"
      by (metis surj_pair)
    obtain out2 where s2: "run step acts (w1, g1) = ((w', g'), out2)" and out: "out = out1 @ out2"
      using Cons.prems(2) Cycle s1 by (auto split: prod.splits)
    show ?thesis
    proof (cases "ph g1")
      case Streaming
      from Cons.IH[OF Streaming s2 Cons.prems(3)]
      show ?thesis by (simp add: out wire_append)
    next
      case Closed
      have "out2 = []"
        using run_closed_silent[of ph step g1 acts w1, OF silent Closed] s2 by simp
      then show ?thesis
        using ends[OF Cons.prems(1) s1 Closed] by (simp add: out)
    qed
  next
    case (Other op)
    then have "run step acts (apply_other op w, g) = ((w', g'), out)"
      using Cons.prems(2) by simp
    from Cons.IH[OF Cons.prems(1) this Cons.prems(3)]
    show ?thesis .
  qed
qed

lemma alive_stop_stream: "\<not> alive (stop_stream i w) i"
  by (simp add: alive_def stop_stream_def update_conv')

lemma workflow_step_ends:
  assumes "phase g = Streaming" "stream_workflow_events_cycle env (w, g) = ((w', g'), out)" "phase g' = Closed"
  shows "wire out \<noteq> [] \<and> event (last (wire out)) = ''disconnected''"
  using assms
  by (auto simp: stream_workflow_events_cycle_def finally_block_def format_sse_message_def Let_def
                 case_prod_beta
           split: if_splits redis_outcome.splits)

lemma workflow_run_ends:
  assumes "phase g = Streaming"
          "phase (snd (fst (run stream_workflow_events_cycle acts (w, g)))) = Closed"
  shows "wire (snd (run stream_workflow_events_cycle acts (w, g))) \<noteq> [] \<and>
         event (last (wire (snd (run stream_workflow_events_cycle acts (w, g))))) = ''disconnected''"
proof -
  obtain w' g' out where r: "run stream_workflow_events_cycle acts (w, g) = ((w', g'), out)"
    by (metis surj_pair)
  have "wire out \<noteq> [] \<and> event (last (wire out)) = ''disconnected''"
  proof (rule run_ends_disconnected[of phase stream_workflow_events_cycle g acts w w' g' out])
    show "\<And>env w g. phase g = Closed \<Longrightarrow> stream_workflow_events_cycle env (w, g) = ((w, g), [])"
      by (rule workflow_closed_silent)
    show "\<And>env w g w' g' out.
            phase g = Streaming \<Longrightarrow> stream_workflow_events_cycle env (w, g) = ((w', g'), out) \<Longrightarrow>
            phase g' = Closed \<Longrightarrow>
            wire out \<noteq> [] \<and> event (last (wire out)) = ''disconnected''"
      by (rule workflow_step_ends)
  qed (use assms r in simp_all)
  then show ?thesis by (simp add: r)
qed

lemma workflow_close_causes:
  assumes "phase g = Streaming"
  shows "(\<not> alive w (gen_id g) \<or> xread_reply env = ConnectionError \<longrightarrow>
            phase (snd (fst (stream_workflow_events_cycle env (w, g)))) = Closed) \<and>
         phase (snd (fst (stream_workflow_events_cycle env (stop_stream (gen_id g) w, g)))) = Closed"
  using assms
  by (auto simp: stream_workflow_events_cycle_def finally_block_def alive_stop_stream)

lemma file_step_ends:
  assumes "phase g = Streaming" "stream_file_analysis_cycle env (w, g) = ((w', g'), out)" "phase g' = Closed"
  shows "wire out \<noteq> [] \<and> event (last (wire out)) = ''disconnected''"
  using assms
  by (auto simp: stream_file_analysis_cycle_def finally_block_def format_sse_message_def Let_def
                 case_prod_beta
           split: if_splits redis_outcome.splits)

lemma file_run_ends:
  assumes "phase g = Streaming"
          "phase (snd (fst (run stream_file_analysis_cycle acts (w, g)))) = Closed"
  shows "wire (snd (run stream_file_analysis_cycle acts (w, g))) \<noteq> [] \<and>
         event (last (wire (snd (run stream_file_analysis_cycle acts (w, g))))) = ''disconnected''"
proof -
  obtain w' g' out where r: "run stream_file_analysis_cycle acts (w, g) = ((w', g'), out)"
    by (metis surj_pair)
  have "wire out \<noteq> [] \<and> event (last (wire out)) = ''disconnected''"
  proof (rule run_ends_disconnected[of phase stream_file_analysis_cycle g acts w w' g' out])
    show "\<And>env w g. phase g = Closed \<Longrightarrow> stream_file_analysis_cycle env (w, g) = ((w, g), [])"
      by (rule file_closed_silent)
    show "\<And>env w g w' g' out.
            phase g = Streaming \<Longrightarrow> stream_file_analysis_cycle env (w, g) = ((w', g'), out) \<Longrightarrow>
            phase g' = Closed \<Longrightarrow>
            wire out \<noteq> [] \<and> event (last (wire out)) = ''disconnected''"
      by (rule file_step_ends)
  qed (use assms r in simp_all)
  then show ?thesis by (simp add: r)
qed

lemma file_close_causes:
  assumes "phase g = Streaming"
  shows "(\<not> alive w (gen_id g) \<or> xread_reply env = ConnectionError \<longrightarrow>
            phase (snd (fst (stream_file_analysis_cycle env (w, g)))) = Closed) \<and>
         phase (snd (fst (stream_file_analysis_cycle env (stop_stream (gen_id g) w, g)))) = Closed"
  using assms
  by (auto simp: stream_file_analysis_cycle_def finally_block_def alive_stop_stream)

lemma global_step_ends:
  assumes "gphase g = Streaming" "stream_global_events_cycle env (w, g) = ((w', g'), out)" "gphase g' = Closed"
  shows "wire out \<noteq> [] \<and> event (last (wire out)) = ''disconnected''"
  using assms
  by (auto simp: stream_global_events_cycle_def finally_block_def format_sse_message_def Let_def
                 case_prod_beta
           split: if_splits redis_outcome.splits)

lemma global_run_ends:
  assumes "gphase g = Streaming"
          "gphase (snd (fst (run stream_global_events_cycle acts (w, g)))) = Closed"
  shows "wire (snd (run stream_global_events_cycle acts (w, g))) \<noteq> [] \<and>
         event (last (wire (snd (run stream_global_events_cycle acts (w, g))))) = ''disconnected''"
proof -
  obtain w' g' out where r: "run stream_global_events_cycle acts (w, g) = ((w', g'), out)"
    by (metis surj_pair)
  have "wire out \<noteq> [] \<and> event (last (wire out)) = ''disconnected''"
  proof (rule run_ends_disconnected[of gphase stream_global_events_cycle g acts w w' g' out])
    show "\<And>env w g. gphase g = Closed \<Longrightarrow> stream_global_events_cycle env (w, g) = ((w, g), [])"
      by (rule global_closed_silent)
    show "\<And>env w g w' g' out.
            gphase g = Streaming \<Longrightarrow> stream_global_events_cycle env (w, g) = ((w', g'), out) \<Longrightarrow>
            gphase g' = Closed \<Longrightarrow>
            wire out \<noteq> [] \<and> event (last (wire out)) = ''disconnected''"
      by (rule global_step_ends)
  qed (use assms r in simp_all)
  then show ?thesis by (simp add: r)
qed

lemma global_close_causes:
  assumes "gphase g = Streaming"
  shows "(\<not> alive w (global_stream_id (gen_user g)) \<or> xread_reply env = ConnectionError \<longrightarrow>
            gphase (snd (fst (stream_global_events_cycle env (w, g)))) = Closed) \<and>
         gphase (snd (fst (stream_global_events_cycle env (stop_stream (global_stream_id (gen_user g)) w, g)))) = Closed"
  using assms
  by (auto simp: stream_global_events_cycle_def finally_block_def alive_stop_stream)

lemma event_generator_prefix:
  "prefix (fst (event_generator d n ms)) ms"
  by (induction ms arbitrary: n) (auto simp: case_prod_beta)

lemma event_generator_all:
  "\<not> snd (event_generator d n ms) \<Longrightarrow> fst (event_generator d n ms) = ms"
  by (induction ms arbitrary: n) (auto simp: case_prod_beta split: if_splits)

lemma event_generator_cut:
  "snd (event_generator d n ms) \<Longrightarrow>
     \<exists>k < length ms. d (n + k) \<and> (\<forall>j < k. \<not> d (n + j)) \<and>
                      fst (event_generator d n ms) = take (Suc k) ms"
proof (induction ms arbitrary: n)
  case Nil
  then show ?case by simp
next
  case (Cons m ms)
  show ?case
  proof (cases "d n")
    case True
    then show ?thesis by (intro exI[of _ 0]) simp
  next
    case False
    with Cons.prems have "snd (event_generator d (Suc n) ms)"
      by (simp add: case_prod_beta)
    from Cons.IH[OF this] obtain k where k: "k < length ms" "d (Suc n + k)"
        "\<forall>j < k. \<not> d (Suc n + j)"
        "fst (event_generator d (Suc n) ms) = take (Suc k) ms"
      by blast
    have "\<forall>j < Suc k. \<not> d (n + j)"
    proof (intro allI impI)
      fix j assume "j < Suc k"
      then show "\<not> d (n + j)"
        using False k(3) by (cases j) auto
    qed
    then show ?thesis
      using False k by (intro exI[of _ "Suc k"]) (simp add: case_prod_beta)
  qed
qed

text \<open>
  C4, as the claim states it: whatever ends a stream, the last message the client gets
  would be \<open>disconnected\<close>. Without a Redis client the generator yields one \<open>error\<close>
  message and ends; and a client found disconnected after the first message has been
  sent \<open>connected\<close> and nothing more.
\<close>

theorem terminal_event_counterexample:
  "wire (snd (stream_workflow_events_start ''wf-1'' ''t0'' offline_world)) =
     [SSE ''error'' [(''message'', ''Redis not connected'')]] \<and>
   phase (snd (fst (stream_workflow_events_start ''wf-1'' ''t0'' offline_world))) = Closed \<and>
   event_generator gone 0
     (wire (snd (stream_workflow_events_start ''wf-1'' ''t0'' busy_world) @
            snd (run stream_workflow_events_cycle
                   [Cycle quiet_cycle, Other (StopStream ''wf-1''), Cycle quiet_cycle]
                   wf_viewer))) =
     ([SSE ''connected'' [(''workflow_id'', ''wf-1''), (''timestamp'', ''t0'')]], True)"
  by code_simp

text \<open>
  C4, amended: for each of the three kinds, a generator that has entered its loop and
  ends, ends with \<open>disconnected\<close> as the last message it yields; it ends within one cycle
  once its stream is stopped or no longer registered, or \<open>xread\<close> raises
  \<open>ConnectionError\<close>. Without a Redis client the generator yields one \<open>error\<close> message
  and is over. The endpoint wrapper passes the messages on up to and including the
  first one after which it finds the client disconnected, and all of them otherwise.
\<close>

theorem terminal_event_by_cause:
  "ends_with_disconnected stream_workflow_events_cycle phase gen_id \<and>
   ends_with_disconnected stream_file_analysis_cycle phase gen_id \<and>
   ends_with_disconnected stream_global_events_cycle gphase (\<lambda>g. global_stream_id (gen_user g)) \<and>
   (\<not> redis_client w \<longrightarrow>
      stream_workflow_events_start i now w =
        ((w, \<lparr>gen_id = i, last_id = 0, phase = Closed\<rparr>),
         [Synth (SSE ''error'' [(''message'', ''Redis not connected'')])]) \<and>
      stream_file_analysis_start i now w =
        ((w, \<lparr>gen_id = i, last_id = 0, phase = Closed\<rparr>),
         [Synth (SSE ''error'' [(''message'', ''Redis not connected'')])]) \<and>
      snd (stream_global_events_start i now w) =
         [Synth (SSE ''error'' [(''message'', ''Redis not connected'')])] \<and>
      gphase (snd (fst (stream_global_events_start i now w))) = Closed) \<and>
   prefix (fst (event_generator d n ms)) ms \<and>
   (snd (event_generator d n ms) \<longrightarrow>
      (\<exists>k < length ms. d (n + k) \<and> (\<forall>j < k. \<not> d (n + j)) \<and>
                       fst (event_generator d n ms) = take (Suc k) ms)) \<and>
   (\<not> snd (event_generator d n ms) \<longrightarrow> fst (event_generator d n ms) = ms)"
proof -
  have 1: "ends_with_disconnected stream_workflow_events_cycle phase gen_id"
    unfolding ends_with_disconnected_def
    using workflow_run_ends workflow_close_causes by blast
  have 2: "ends_with_disconnected stream_file_analysis_cycle phase gen_id"
    unfolding ends_with_disconnected_def
    using file_run_ends file_close_causes by blast
  have 3: "ends_with_disconnected stream_global_events_cycle gphase
             (\<lambda>g. global_stream_id (gen_user g))"
    unfolding ends_with_disconnected_def
    using global_run_ends global_close_causes by blast
  have 4: "\<not> redis_client w \<longrightarrow>
      stream_workflow_events_start i now w =
        ((w, \<lparr>gen_id = i, last_id = 0, phase = Closed\<rparr>),
         [Synth (SSE ''error'' [(''message'', ''Redis not connected'')])]) \<and>
      stream_file_analysis_start i now w =
        ((w, \<lparr>gen_id = i, last_id = 0, phase = Closed\<rparr>),
         [Synth (SSE ''error'' [(''message'', ''Redis not connected'')])]) \<and>
      snd (stream_global_events_start i now w) =
         [Synth (SSE ''error'' [(''message'', ''Redis not connected'')])] \<and>
      gphase (snd (fst (stream_global_events_start i now w))) = Closed"
    by (simp add: stream_workflow_events_start_def stream_file_analysis_start_def
          stream_global_events_start_def format_sse_message_def)
  show ?thesis
    using 1 2 3 4 event_generator_prefix[of d n ms] event_generator_cut[of d n ms]
          event_generator_all[of d n ms]
    by blast
qed

theorem terminal_event_by_cause_witness:
  "phase (snd wf_viewer) = Streaming \<and>
   phase (snd (fst (run stream_workflow_events_cycle
                      [Cycle quiet_cycle, Other (StopStream ''wf-1''), Cycle quiet_cycle]
                      wf_viewer))) = Closed \<and>
   event (last (wire (snd (run stream_workflow_events_cycle
                      [Cycle quiet_cycle, Other (StopStream ''wf-1''), Cycle quiet_cycle]
                      wf_viewer)))) = ''disconnected'' \<and>
   \<not> redis_client offline_world \<and>
   stream_file_analysis_start ''abc'' ''t0'' offline_world =
     ((offline_world, \<lparr>gen_id = ''abc'', last_id = 0, phase = Closed\<rparr>),
      [Synth (SSE ''error'' [(''message'', ''Redis not connected'')])])"
proof -
  have p: "phase (snd wf_viewer) = Streaming" by code_simp
  have q: "phase (snd (fst (run stream_workflow_events_cycle
                      [Cycle quiet_cycle, Other (StopStream ''wf-1''), Cycle quiet_cycle]
                      (fst wf_viewer, snd wf_viewer)))) = Closed"
    by code_simp
  have n: "\<not> redis_client offline_world" by code_simp
  note t = terminal_event_by_cause[of offline_world "''abc''" "''t0''" gone 0 "[]"]
  have e: "ends_with_disconnected stream_workflow_events_cycle phase gen_id"
    using t by blast
  have "event (last (wire (snd (run stream_workflow_events_cycle
                      [Cycle quiet_cycle, Other (StopStream ''wf-1''), Cycle quiet_cycle]
                      (fst wf_viewer, snd wf_viewer))))) = ''disconnected''"
    using e p q unfolding ends_with_disconnected_def by blast
  moreover have "stream_file_analysis_start ''abc'' ''t0'' offline_world =
     ((offline_world, \<lparr>gen_id = ''abc'', last_id = 0, phase = Closed\<rparr>),
      [Synth (SSE ''error'' [(''message'', ''Redis not connected'')])])"
    using t n by blast
  ultimately show ?thesis
    using p q n by simp
qed

subsection \<open>Published events and the file stream\<close>

lemma file_key_differs: "stream_key_of ''file_analysis'' \<noteq> file_id @ '':analysis''"
proof
  assume "stream_key_of ''file_analysis'' = file_id @ '':analysis''"
  then have "rev (stream_key_of ''file_analysis'') = rev (file_id @ '':analysis'')"
    by simp
  then show False
    by (simp add: stream_key_of_def STREAM_KEYS_def)
qed

lemma publish_leaves_file_channel:
  "streams (publish_analysis_progress fid d now oc extra w) (file_id @ '':analysis'') =
     streams w (file_id @ '':analysis'')"
  using file_key_differs[of file_id]
  by (cases oc) (auto simp: publish_analysis_progress_def xadd_def Let_def)

lemma xread_one_fresh:
  assumes "streams w key = []" "0 < maxlen"
  shows "xread_one (xadd key fs maxlen extra w) 10 key 0 = [(Suc (last_generated w), fs)]"
  using assms by (simp add: xread_one_def xadd_def Let_def)

lemma workflow_cycle_stopped:
  assumes "phase g = Streaming" "\<not> alive w (gen_id g)"
  shows "stream_workflow_events_cycle env (w, g) =
           ((w\<lparr>active_streams := AList.delete (gen_id g) (active_streams w)\<rparr>,
             g\<lparr>phase := Closed\<rparr>),
            [Synth (SSE ''disconnected'' [(''workflow_id'', gen_id g),
                                          (''timestamp'', clock env)])])"
  using assms
  by (simp add: stream_workflow_events_cycle_def finally_block_def format_sse_message_def)

lemma file_cycle_stopped:
  assumes "phase g = Streaming" "\<not> alive w (gen_id g)"
  shows "stream_file_analysis_cycle env (w, g) =
           ((w\<lparr>active_streams := AList.delete (gen_id g) (active_streams w)\<rparr>,
             g\<lparr>phase := Closed\<rparr>),
            [Synth (SSE ''disconnected'' [(''file_id'', gen_id g),
                                          (''timestamp'', clock env)])])"
  using assms
  by (simp add: stream_file_analysis_cycle_def finally_block_def format_sse_message_def)

text \<open>
  C1, as the claim states it: an event published for file \<open>abc\<close> through
  \<open>publish_analysis_progress\<close> would be the first message of a subscription to file
  \<open>abc\<close> after \<open>connected\<close>. The event is stored, in \<open>pip-ai:analysis:progress\<close>; the
  subscription reads \<open>abc:analysis\<close>, and yields \<open>connected\<close> and, once stopped,
  \<open>disconnected\<close>, with nothing in between.
\<close>

theorem published_event_counterexample:
  "streams upload_published ''pip-ai:analysis:progress'' =
     [(1, [(''file_id'', ''abc''), (''timestamp'', ''t0''), (''event_type'', ''uploaded''),
           (''progress'', ''25'')])] \<and>
   wire (snd (stream_file_analysis_start ''abc'' ''t1'' upload_published) @
         snd (run stream_file_analysis_cycle
                [Cycle quiet_cycle, Other (StopStream ''abc''), Cycle closing_cycle]
                (fst (stream_file_analysis_start ''abc'' ''t1'' upload_published)))) =
     [SSE ''connected'' [(''file_id'', ''abc''), (''timestamp'', ''t1'')],
      SSE ''disconnected'' [(''file_id'', ''abc''), (''timestamp'', ''t2'')]]"
  by code_simp

text \<open>
  C1, amended: \<open>publish_analysis_progress\<close> appends the event, with \<open>file_id\<close> and
  \<open>timestamp\<close> added, to \<open>pip-ai:analysis:progress\<close>, one of the channels the merged
  stream of a user reads. That key is the channel \<open>file_id:analysis\<close> of no file, and the
  channels of the files stay as they are. When an entry is appended to the channel
  \<open>file_id:analysis\<close> itself, so far empty, a subscription to the file attached from \<open>0\<close>
  yields \<open>connected\<close>, then that entry under its event type, and after \<open>stop_stream\<close>
  its last message is \<open>disconnected\<close>.
\<close>

theorem file_stream_reads_own_channel:
  assumes "redis_client w" "streams w (file_id @ '':analysis'') = []" "0 < maxlen"
          "xread_reply env = Replied"
  shows "last (streams (publish_analysis_progress file_id d now0 Replied extra0 w)
                 (stream_key_of ''file_analysis'')) =
           (Suc (last_generated w),
            dict_merge [(''file_id'', file_id), (''timestamp'', now0),
                        (''event_type'', ''analysis_progress'')] d) \<and>
         stream_key_of ''file_analysis'' \<in>
           fst ` set (last_ids (snd (fst (stream_global_events_start user_id now1 w)))) \<and>
         stream_key_of ''file_analysis'' \<noteq> file_id @ '':analysis'' \<and>
         streams (publish_analysis_progress file_id d now0 oc extra0 w)
           (file_id @ '':analysis'') = [] \<and>
         (let w1 = xadd (file_id @ '':analysis'') fs maxlen extra w;
              r0 = stream_file_analysis_start file_id now w1;
              r1 = run stream_file_analysis_cycle
                     [Cycle env, Other (StopStream file_id), Cycle env2] (fst r0)
          in wire (snd r0 @ snd r1) =
               [SSE ''connected'' [(''file_id'', file_id), (''timestamp'', now)],
                SSE (event_type_of fs ''analysis'') fs,
                SSE ''disconnected'' [(''file_id'', file_id), (''timestamp'', clock env2)]] \<and>
             phase (snd (fst r1)) = Closed)"
proof -
  let ?key = "file_id @ '':analysis''"
  let ?w1 = "xadd ?key fs maxlen extra w"
  let ?w2 = "?w1\<lparr>active_streams := AList.update file_id True (active_streams ?w1)\<rparr>"
  let ?g = "\<lparr>gen_id = file_id, last_id = 0, phase = Streaming\<rparr>"
  have rc: "redis_client ?w1" using assms(1) by (simp add: xadd_def Let_def)
  have st: "stream_file_analysis_start file_id now ?w1 =
              ((?w2, ?g), [Synth (SSE ''connected'' [(''file_id'', file_id), (''timestamp'', now)])])"
    using rc by (simp add: stream_file_analysis_start_def format_sse_message_def)
  have x: "xread_one ?w2 10 ?key 0 = [(Suc (last_generated w), fs)]"
    using xread_one_fresh[OF assms(2,3), of fs extra] by (simp add: xread_one_def)
  have al: "alive ?w2 file_id" by (simp add: alive_def update_conv')
  have c1: "stream_file_analysis_cycle env (?w2, ?g) =
              ((?w2, ?g\<lparr>last_id := Suc (last_generated w)\<rparr>),
               [relayed ''analysis'' ?key (Suc (last_generated w), fs)])"
    using file_cycle_replied[of ?g ?w2 env] al assms(4) by (simp add: x advance_def)
  have p: "last (streams (publish_analysis_progress file_id d now0 Replied extra0 w)
                 (stream_key_of ''file_analysis'')) =
           (Suc (last_generated w),
            dict_merge [(''file_id'', file_id), (''timestamp'', now0),
                        (''event_type'', ''analysis_progress'')] d)"
    using assms(1) by (simp add: publish_analysis_progress_def xadd_def Let_def)
  have m: "stream_key_of ''file_analysis'' \<in>
           fst ` set (last_ids (snd (fst (stream_global_events_start user_id now1 w))))"
    by (simp add: stream_global_events_start_def stream_key_of_def STREAM_KEYS_def)
  have r: "(let w1 = xadd (file_id @ '':analysis'') fs maxlen extra w;
              r0 = stream_file_analysis_start file_id now w1;
              r1 = run stream_file_analysis_cycle
                     [Cycle env, Other (StopStream file_id), Cycle env2] (fst r0)
          in wire (snd r0 @ snd r1) =
               [SSE ''connected'' [(''file_id'', file_id), (''timestamp'', now)],
                SSE (event_type_of fs ''analysis'') fs,
                SSE ''disconnected'' [(''file_id'', file_id), (''timestamp'', clock env2)]] \<and>
             phase (snd (fst r1)) = Closed)"
    by (simp add: st c1 file_cycle_stopped alive_stop_stream
          Let_def relayed_def format_sse_message_def)
  show ?thesis
    using p m r file_key_differs[of file_id] assms(2)
    by (simp only: publish_leaves_file_channel simp_thms)
qed

theorem file_stream_reads_own_channel_witness:
  "redis_client idle_world \<and> streams idle_world (''abc'' @ '':analysis'') = [] \<and>
   (0::nat) < 1000 \<and> xread_reply quiet_cycle = Replied \<and>
   wire (snd (stream_file_analysis_start ''abc'' ''t0''
                (xadd ''abc:analysis'' [(''event_type'', ''uploaded''), (''progress'', ''25'')]
                   1000 0 idle_world)) @
         snd (run stream_file_analysis_cycle
                [Cycle quiet_cycle, Other (StopStream ''abc''), Cycle closing_cycle]
                (fst (stream_file_analysis_start ''abc'' ''t0''
                   (xadd ''abc:analysis'' [(''event_type'', ''uploaded''), (''progress'', ''25'')]
                   1000 0 idle_world))))) =
     [SSE ''connected'' [(''file_id'', ''abc''), (''timestamp'', ''t0'')],
      SSE ''uploaded'' [(''event_type'', ''uploaded''), (''progress'', ''25'')],
      SSE ''disconnected'' [(''file_id'', ''abc''), (''timestamp'', ''t2'')]] \<and>
   wire (snd (stream_global_events_cycle quiet_cycle
     (fst (stream_global_events_start ''u1'' ''t0''
        (publish_analysis_progress ''user:u1:abc''
           [(''event_type'', ''uploaded''), (''progress'', ''25'')] ''t0'' Replied 0
           idle_world))))) =
     [SSE ''uploaded'' [(''file_id'', ''user:u1:abc''), (''timestamp'', ''t0''),
                        (''event_type'', ''uploaded''), (''progress'', ''25'')]]"
proof -
  have g: "wire (snd (stream_global_events_cycle quiet_cycle
     (fst (stream_global_events_start ''u1'' ''t0''
        (publish_analysis_progress ''user:u1:abc''
           [(''event_type'', ''uploaded''), (''progress'', ''25'')] ''t0'' Replied 0
           idle_world))))) =
     [SSE ''uploaded'' [(''file_id'', ''user:u1:abc''), (''timestamp'', ''t0''),
                        (''event_type'', ''uploaded''), (''progress'', ''25'')]]"
    by code_simp
  have h: "redis_client idle_world" "streams idle_world (''abc'' @ '':analysis'') = []"
          "(0::nat) < 1000" "xread_reply quiet_cycle = Replied"
    by (simp_all add: idle_world_def quiet_cycle_def)
  have c: "clock closing_cycle = ''t2''"
          "event_type_of [(''event_type'', ''uploaded''), (''progress'', ''25'')] ''analysis'' =
             ''uploaded''"
    by code_simp+
  show ?thesis
    using h g file_stream_reads_own_channel[OF h,
            where fs = "[(''event_type'', ''uploaded''), (''progress'', ''25'')]"
              and now = "''t0''" and ?env2.0 = closing_cycle and extra = 0]
    by (simp add: Let_def c)
qed

subsection \<open>Two subscriptions to one channel\<close>

lemma xread_one_caught_up:
  assumes "xread_one w 10 key c = []" "c \<le> last_generated w" "0 < maxlen"
  shows "xread_one (xadd key fs maxlen extra w) 10 key c = [(Suc (last_generated w), fs)]"
proof -
  let ?es = "streams w key"
  let ?m = "Suc (length ?es) - (maxlen + extra)"
  have none: "filter (\<lambda>e. c < fst e) ?es = []"
    using assms(1) by (simp add: xread_one_def)
  have m: "?m \<le> length ?es" using assms(3) by simp
  have "filter (\<lambda>e. c < fst e) (drop ?m ?es) = []"
    using none by (auto simp: filter_empty_conv dest: in_set_dropD)
  then have "filter (\<lambda>e. c < fst e) (drop ?m (?es @ [(Suc (last_generated w), fs)])) =
               [(Suc (last_generated w), fs)]"
    using m assms(2) by simp
  then show ?thesis
    by (simp add: xread_one_def xadd_def Let_def)
qed

lemma workflow_later_ids_above:
  assumes "store_ok w" "i \<in> set (ids_on k (snd (run stream_workflow_events_cycle acts (w, g))))"
  shows "last_id g < i"
  using workflow_run_respects[OF assms(1), of k "[]" acts g] assms(2)
  by (simp add: cursor_respected_def Let_def)

lemma workflow_reads_new_entry:
  assumes ok: "store_ok w" and live: "phase g = Streaming" "alive w (gen_id g)"
      and rep: "xread_reply env = Replied"
      and up: "xread_one w 10 (gen_id g @ '':progress'') (last_id g) = []"
              "last_id g \<le> last_generated w"
      and len: "0 < maxlen"
  shows "(let key = gen_id g @ '':progress''; new = (Suc (last_generated w), fs);
              w1 = xadd key fs maxlen extra w; r = stream_workflow_events_cycle env (w1, g)
          in fst (fst r) = w1 \<and> last_id (snd (fst r)) = fst new \<and>
             take 1 (snd r) = [relayed ''progress'' key new] \<and>
             ids_on key (snd r) = [fst new] \<and>
             (\<forall>acts. fst new \<notin> set (ids_on key (snd (run stream_workflow_events_cycle acts (fst r))))))"
proof -
  let ?key = "gen_id g @ '':progress''"
  let ?w1 = "xadd ?key fs maxlen extra w"
  let ?n = "Suc (last_generated w)"
  let ?g' = "g\<lparr>last_id := ?n\<rparr>"
  have al: "alive ?w1 (gen_id g)"
    using live(2) by (simp add: alive_def xadd_def Let_def)
  have x: "xread_one ?w1 10 ?key (last_id g) = [(?n, fs)]"
    by (rule xread_one_caught_up[OF up len])
  obtain rest where c: "stream_workflow_events_cycle env (?w1, g) =
        ((?w1, ?g'), relayed ''progress'' ?key (?n, fs) # rest)"
      and e: "ids_on ?key rest = []"
    using workflow_cycle_replied[OF live(1) al rep]
    by (auto simp: x advance_def split: query_outcome.splits)
  have "?n \<notin> set (ids_on ?key (snd (run stream_workflow_events_cycle acts (?w1, ?g'))))" for acts
    using workflow_later_ids_above[OF store_ok_xadd[OF ok], of ?n ?key acts ?key fs maxlen extra ?g']
    by auto
  then show ?thesis
    using e by (simp add: c Let_def relayed_def)
qed

lemma workflow_shared_registry:
  assumes "gen_id a = gen_id b" "phase a = Streaming" "phase b = Streaming"
          "alive w (gen_id a)" "xread_reply env1 = ConnectionError"
  shows "phase (snd (fst (stream_workflow_events_cycle env2 (stop_stream (gen_id a) w, b)))) = Closed \<and>
         map event (wire (snd (stream_workflow_events_cycle env2 (stop_stream (gen_id a) w, b)))) =
           [''disconnected''] \<and>
         phase (snd (fst (stream_workflow_events_cycle env2 (fst (fst (stream_workflow_events_cycle env1 (w, a))), b)))) = Closed \<and>
         map event (wire (snd (stream_workflow_events_cycle env2 (fst (fst (stream_workflow_events_cycle env1 (w, a))), b)))) =
           [''disconnected'']"
proof -
  have 1: "\<not> alive (stop_stream (gen_id a) w) (gen_id b)"
    using assms(1) alive_stop_stream[of "gen_id a" w] by simp
  have 2: "\<not> alive (w\<lparr>active_streams := AList.delete (gen_id a) (active_streams w)\<rparr>) (gen_id b)"
    using assms(1) by (simp add: alive_def delete_conv')
  show ?thesis
    using assms(3)
    by (simp add: workflow_cycle_lost[OF assms(2,4,5)] workflow_cycle_stopped 1 2)
qed

lemma file_later_ids_above:
  assumes "store_ok w" "i \<in> set (ids_on k (snd (run stream_file_analysis_cycle acts (w, g))))"
  shows "last_id g < i"
  using file_run_respects[OF assms(1), of k "[]" acts g] assms(2)
  by (simp add: cursor_respected_def Let_def)

lemma file_reads_new_entry:
  assumes ok: "store_ok w" and live: "phase g = Streaming" "alive w (gen_id g)"
      and rep: "xread_reply env = Replied"
      and up: "xread_one w 10 (gen_id g @ '':analysis'') (last_id g) = []"
              "last_id g \<le> last_generated w"
      and len: "0 < maxlen"
  shows "(let key = gen_id g @ '':analysis''; new = (Suc (last_generated w), fs);
              w1 = xadd key fs maxlen extra w; r = stream_file_analysis_cycle env (w1, g)
          in fst (fst r) = w1 \<and> last_id (snd (fst r)) = fst new \<and>
             take 1 (snd r) = [relayed ''analysis'' key new] \<and>
             ids_on key (snd r) = [fst new] \<and>
             (\<forall>acts. fst new \<notin> set (ids_on key (snd (run stream_file_analysis_cycle acts (fst r))))))"
proof -
  let ?key = "gen_id g @ '':analysis''"
  let ?w1 = "xadd ?key fs maxlen extra w"
  let ?n = "Suc (last_generated w)"
  let ?g' = "g\<lparr>last_id := ?n\<rparr>"
  have al: "alive ?w1 (gen_id g)"
    using live(2) by (simp add: alive_def xadd_def Let_def)
  have x: "xread_one ?w1 10 ?key (last_id g) = [(?n, fs)]"
    by (rule xread_one_caught_up[OF up len])
  obtain rest where c: "stream_file_analysis_cycle env (?w1, g) =
        ((?w1, ?g'), relayed ''analysis'' ?key (?n, fs) # rest)"
      and e: "ids_on ?key rest = []"
    using file_cycle_replied[OF live(1) al rep]
    by (auto simp: x advance_def split: query_outcome.splits)
  have "?n \<notin> set (ids_on ?key (snd (run stream_file_analysis_cycle acts (?w1, ?g'))))" for acts
    using file_later_ids_above[OF store_ok_xadd[OF ok], of ?n ?key acts ?key fs maxlen extra ?g']
    by auto
  then show ?thesis
    using e by (simp add: c Let_def relayed_def)
qed

lemma file_shared_registry:
  assumes "gen_id a = gen_id b" "phase a = Streaming" "phase b = Streaming"
          "alive w (gen_id a)" "xread_reply env1 = ConnectionError"
  shows "phase (snd (fst (stream_file_analysis_cycle env2 (stop_stream (gen_id a) w, b)))) = Closed \<and>
         map event (wire (snd (stream_file_analysis_cycle env2 (stop_stream (gen_id a) w, b)))) =
           [''disconnected''] \<and>
         phase (snd (fst (stream_file_analysis_cycle env2 (fst (fst (stream_file_analysis_cycle env1 (w, a))), b)))) = Closed \<and>
         map event (wire (snd (stream_file_analysis_cycle env2 (fst (fst (stream_file_analysis_cycle env1 (w, a))), b)))) =
           [''disconnected'']"
proof -
  have 1: "\<not> alive (stop_stream (gen_id a) w) (gen_id b)"
    using assms(1) alive_stop_stream[of "gen_id a" w] by simp
  have 2: "\<not> alive (w\<lparr>active_streams := AList.delete (gen_id a) (active_streams w)\<rparr>) (gen_id b)"
    using assms(1) by (simp add: alive_def delete_conv')
  show ?thesis
    using assms(3)
    by (simp add: file_cycle_lost[OF assms(2,4,5)] file_cycle_stopped 1 2)
qed

text \<open>
  C8, as the claim states it: stopping one of two subscriptions to the same workflow
  would leave the other running. The registry is keyed by the workflow id, which both
  share: after \<open>stop_stream\<close> for the first viewer, the next cycle of the second finds
  the stream not alive and ends with \<open>disconnected\<close>.
\<close>

theorem shared_stop_counterexample:
  "phase (snd second_viewer) = Streaming \<and> alive (fst second_viewer) ''wf-1'' \<and>
   wire (snd (stream_workflow_events_cycle quiet_cycle
                (stop_stream ''wf-1'' (fst second_viewer), snd second_viewer))) =
     [SSE ''disconnected'' [(''workflow_id'', ''wf-1''), (''timestamp'', ''t1'')]] \<and>
   phase (snd (fst (stream_workflow_events_cycle quiet_cycle
                      (stop_stream ''wf-1'' (fst second_viewer), snd second_viewer)))) = Closed"
  by code_simp

text \<open>
  C8, amended: two subscriptions to the same workflow, or to the same file, keep their
  own cursors. When both have read all there is and one entry is appended, each takes
  it in its next cycle, whether or not the other has run, with its cursor at the id of
  the entry afterwards, and neither takes it again in any later run. They share one
  entry of the registry, under the workflow or file id: after \<open>stop_stream\<close> for that
  id, or once one of them has ended on a lost connection, the next cycle of the other
  ends it with \<open>disconnected\<close>.
\<close>

theorem same_channel_subscriptions:
  assumes kind: "(cyc = stream_workflow_events_cycle \<and> sfx = '':progress'' \<and> dflt = ''progress'') \<or>
                 (cyc = stream_file_analysis_cycle \<and> sfx = '':analysis'' \<and> dflt = ''analysis'')"
      and ok: "store_ok w" and same: "gen_id a = gen_id b"
      and live: "phase a = Streaming" "phase b = Streaming" "alive w (gen_id a)"
      and rep: "xread_reply env = Replied" and lost: "xread_reply env1 = ConnectionError"
      and up: "xread_one w 10 (gen_id a @ sfx) (last_id a) = []"
              "xread_one w 10 (gen_id a @ sfx) (last_id b) = []"
              "last_id a \<le> last_generated w" "last_id b \<le> last_generated w"
      and len: "0 < maxlen"
  shows "(let key = gen_id a @ sfx; new = (Suc (last_generated w), fs);
              w1 = xadd key fs maxlen extra w;
              ra = cyc env (w1, a); rb = cyc env (fst (fst ra), b)
          in take 1 (snd ra) = [relayed dflt key new] \<and> ids_on key (snd ra) = [fst new] \<and>
             take 1 (snd rb) = [relayed dflt key new] \<and> ids_on key (snd rb) = [fst new] \<and>
             rb = cyc env (w1, b) \<and>
             last_id (snd (fst ra)) = fst new \<and> last_id (snd (fst rb)) = fst new \<and>
             (\<forall>acts. fst new \<notin> set (ids_on key (snd (run cyc acts (fst ra)))) \<and>
                     fst new \<notin> set (ids_on key (snd (run cyc acts (fst rb)))))) \<and>
         phase (snd (fst (cyc env2 (stop_stream (gen_id a) w, b)))) = Closed \<and>
         map event (wire (snd (cyc env2 (stop_stream (gen_id a) w, b)))) = [''disconnected''] \<and>
         phase (snd (fst (cyc env2 (fst (fst (cyc env1 (w, a))), b)))) = Closed \<and>
         map event (wire (snd (cyc env2 (fst (fst (cyc env1 (w, a))), b)))) = [''disconnected'']"
  using kind
proof (elim disjE conjE)
  assume k: "cyc = stream_workflow_events_cycle" "sfx = '':progress''" "dflt = ''progress''"
  have lb: "alive w (gen_id b)" using live(3) same by simp
  show ?thesis
    using workflow_reads_new_entry[OF ok live(1,3) rep up(1,3)[unfolded k] len, of fs extra]
          workflow_reads_new_entry[OF ok live(2) lb rep up(2,4)[unfolded k same] len,
            of fs extra]
          workflow_shared_registry[OF same live lost, of env2]
    by (simp add: k same Let_def)
next
  assume k: "cyc = stream_file_analysis_cycle" "sfx = '':analysis''" "dflt = ''analysis''"
  have lb: "alive w (gen_id b)" using live(3) same by simp
  show ?thesis
    using file_reads_new_entry[OF ok live(1,3) rep up(1,3)[unfolded k] len, of fs extra]
          file_reads_new_entry[OF ok live(2) lb rep up(2,4)[unfolded k same] len,
            of fs extra]
          file_shared_registry[OF same live lost, of env2]
    by (simp add: k same Let_def)
qed

theorem same_channel_subscriptions_witness:
  "store_ok (fst second_viewer) \<and> gen_id (snd first_viewer) = gen_id (snd second_viewer) \<and>
   phase (snd first_viewer) = Streaming \<and> phase (snd second_viewer) = Streaming \<and>
   alive (fst second_viewer) (gen_id (snd first_viewer)) \<and>
   xread_reply quiet_cycle = Replied \<and> xread_reply lost_cycle = ConnectionError \<and>
   xread_one (fst second_viewer) 10 (gen_id (snd first_viewer) @ '':progress'')
     (last_id (snd first_viewer)) = [] \<and>
   last_id (snd first_viewer) \<le> last_generated (fst second_viewer) \<and>
   (0::nat) < 1000 \<and>
   ids_on ''wf-1:progress''
     (snd (stream_workflow_events_cycle quiet_cycle
        (xadd ''wf-1:progress'' [(''pct'', ''5'')] 1000 0 (fst second_viewer),
         snd first_viewer))) = [1] \<and>
   ids_on ''wf-1:progress''
     (snd (stream_workflow_events_cycle quiet_cycle
        (xadd ''wf-1:progress'' [(''pct'', ''5'')] 1000 0 (fst second_viewer),
         snd second_viewer))) = [1] \<and>
   phase (snd (fst (stream_workflow_events_cycle quiet_cycle
      (fst (fst (stream_workflow_events_cycle lost_cycle
                   (fst second_viewer, snd first_viewer))),
       snd second_viewer)))) = Closed"
proof -
  have k: "(stream_workflow_events_cycle = stream_workflow_events_cycle \<and>
            '':progress'' = '':progress'' \<and> ''progress'' = ''progress'') \<or>
           (stream_workflow_events_cycle = stream_file_analysis_cycle \<and>
            '':progress'' = '':analysis'' \<and> ''progress'' = ''analysis'')"
    by simp
  have ok: "store_ok (fst second_viewer)"
    unfolding second_viewer_def first_viewer_def
    by (intro store_ok_started store_ok_idle)
  have same: "gen_id (snd first_viewer) = gen_id (snd second_viewer)" by code_simp
  have live: "phase (snd first_viewer) = Streaming" "phase (snd second_viewer) = Streaming"
             "alive (fst second_viewer) (gen_id (snd first_viewer))"
    by code_simp+
  have rep: "xread_reply quiet_cycle = Replied" and lost: "xread_reply lost_cycle = ConnectionError"
    by code_simp+
  have up: "xread_one (fst second_viewer) 10 (gen_id (snd first_viewer) @ '':progress'')
              (last_id (snd first_viewer)) = []"
           "xread_one (fst second_viewer) 10 (gen_id (snd first_viewer) @ '':progress'')
              (last_id (snd second_viewer)) = []"
           "last_id (snd first_viewer) \<le> last_generated (fst second_viewer)"
           "last_id (snd second_viewer) \<le> last_generated (fst second_viewer)"
    by code_simp+
  have len: "(0::nat) < 1000" by simp
  have c: "gen_id (snd first_viewer) = ''wf-1''" "last_generated (fst second_viewer) = 0"
    by code_simp+
  note t = same_channel_subscriptions[OF k ok same live rep lost up len,
             where fs = "[(''pct'', ''5'')]" and ?env2.0 = quiet_cycle and extra = 0]
  have i1: "ids_on ''wf-1:progress''
     (snd (stream_workflow_events_cycle quiet_cycle
        (xadd ''wf-1:progress'' [(''pct'', ''5'')] 1000 0 (fst second_viewer),
         snd first_viewer))) = [1]"
    using t by (simp add: Let_def c)
  have i2: "ids_on ''wf-1:progress''
     (snd (stream_workflow_events_cycle quiet_cycle
        (xadd ''wf-1:progress'' [(''pct'', ''5'')] 1000 0 (fst second_viewer),
         snd second_viewer))) = [1]"
    by code_simp
  have p: "phase (snd (fst (stream_workflow_events_cycle quiet_cycle
      (fst (fst (stream_workflow_events_cycle lost_cycle
                   (fst second_viewer, snd first_viewer))),
       snd second_viewer)))) = Closed"
    using t by (simp add: Let_def c)
  show ?thesis
    by (intro conjI ok same live rep lost up(1) up(3) len i1 i2 p)
qed

end
